theory Spec2Isabelle
  imports Complex_Main "HOL-Library.Multiset" "HOL-Library.AList"
begin

section \<open>Data model (types/zaplytics)\<close>

text \<open>
  JavaScript numbers that hold integers are modelled exactly: timestamps as \<open>int\<close>,
  amounts in sats and counters as \<open>nat\<close>. All quantities are assumed to stay far
  below \<open>2 ^ 53\<close>, where the arithmetic of doubles on them is exact. A quotient that is
  only compared with an integer or rounded to one by \<open>Math.round\<close> is the exact
  quotient, a \<open>rat\<close>: the rounding of the double does not change the result there. A
  quotient that is returned as it is, as the percentage of a kind, is a double.
  Strings are lists of 8-bit characters.
\<close>

record NostrEvent =
  ev_id :: string
  ev_created_at :: int
  ev_pubkey :: string
  ev_kind :: nat
  ev_tags :: "string list list"
  ev_content :: string
  ev_sig :: string

text \<open>\<open>ZapReceipt\<close> is \<open>NostrEvent\<close> narrowed by the type guard \<open>isValidZapReceipt\<close>.\<close>

type_synonym ZapReceipt = NostrEvent

record ZappedEvent =
  ze_id :: string
  ze_kind :: nat
  ze_author :: string
  ze_content :: string
  ze_created_at :: int

record Zapper =
  zp_pubkey :: string
  zp_name :: "string option"
  zp_nip05 :: "string option"
  zp_picture :: "string option"

text \<open>The zap request is read from parsed JSON: each property may be undefined.\<close>

record ZapRequest =
  zr_pubkey :: "string option"
  zr_content :: "string option"
  zr_created_at :: "int option"

record ParsedZap =
  receipt :: ZapReceipt
  zappedEvent :: "ZappedEvent option"
  zapper :: Zapper
  amount :: nat
  comment :: "string option"
  zapRequest :: "ZapRequest option"

datatype TimeRange = R24h | R7d | R30d | R90d | Custom

datatype GroupBy = Hour | Day | Week | Month

record TimeRangeConfig =
  label :: string
  days :: "nat option"
  groupBy :: GroupBy

fun TIME_RANGES :: "TimeRange \<Rightarrow> TimeRangeConfig" where
  "TIME_RANGES R24h = \<lparr>label = ''Last 24 hours'', days = Some 1, groupBy = Hour\<rparr>"
| "TIME_RANGES R7d = \<lparr>label = ''Last 7 days'', days = Some 7, groupBy = Day\<rparr>"
| "TIME_RANGES R30d = \<lparr>label = ''Last 30 days'', days = Some 30, groupBy = Day\<rparr>"
| "TIME_RANGES R90d = \<lparr>label = ''Last 90 days'', days = Some 90, groupBy = Week\<rparr>"
| "TIME_RANGES Custom = \<lparr>label = ''Custom range'', days = None, groupBy = Day\<rparr>"

text \<open>A \<open>CustomDateRange\<close> holds two dates, each as its \<open>getTime()\<close> in milliseconds.\<close>

record CustomDateRange =
  cr_from :: int
  cr_to :: int

section \<open>JavaScript helpers\<close>

text \<open>\<open>tag[i]\<close>: undefined beyond the end of the array.\<close>

definition tag_at :: "string list \<Rightarrow> nat \<Rightarrow> string option" where
  "tag_at t i = (if i < length t then Some (t ! i) else None)"

text \<open>Truthiness of a string that may be undefined: defined and non-empty.\<close>

fun truthy_str :: "string option \<Rightarrow> bool" where
  "truthy_str None = False"
| "truthy_str (Some s) = (s \<noteq> [])"

text \<open>\<open>tags.find(tag => tag[0] === name)\<close>: the first tag with that name.\<close>

definition find_tag :: "string \<Rightarrow> string list list \<Rightarrow> string list option" where
  "find_tag name ts = find (\<lambda>t. tag_at t 0 = Some name) ts"

text \<open>\<open>Math.round\<close>: the nearest integer, a half rounded towards plus infinity.\<close>

definition Math_round :: "rat \<Rightarrow> int" where
  "Math_round x = \<lfloor>x + 1 / 2\<rfloor>"

text \<open>\<open>Math.ceil(a / b)\<close> for integers \<open>a\<close> and \<open>b\<close>.\<close>

definition ceil_div :: "int \<Rightarrow> int \<Rightarrow> int" where
  "ceil_div a b = \<lceil>rat_of_int a / rat_of_int b\<rceil>"

section \<open>Receipt parsing and validation (lib/zaplytics/utils)\<close>

text \<open>
  The bolt11 decoder is a library outside the repository. It is a parameter: \<open>None\<close> when
  \<open>decode\<close> throws, otherwise the sections of the invoice, each a name and a value
  (\<open>None\<close> for a missing or falsy value, \<open>Some n\<close> for a value whose \<open>Number\<close> is \<open>n\<close>).
\<close>

type_synonym Bolt11Decoder = "string \<Rightarrow> (string \<times> nat option) list option"

definition parseBolt11Amount :: "Bolt11Decoder \<Rightarrow> string \<Rightarrow> nat" where
  "parseBolt11Amount decode bolt11 =
     (case decode bolt11 of
        None \<Rightarrow> 0
      | Some sections \<Rightarrow>
          (case find (\<lambda>section. fst section = ''amount'') sections of
             Some (_, Some v) \<Rightarrow> v div 1000
           | _ \<Rightarrow> 0))"

text \<open>
  \<open>JSON.parse\<close> of the description tag, followed by the three property reads, is a
  parameter too: \<open>None\<close> when parsing or a property read throws.
\<close>

type_synonym JsonParser = "string \<Rightarrow> ZapRequest option"

definition parseZapReceipt :: "Bolt11Decoder \<Rightarrow> JsonParser \<Rightarrow> ZapReceipt \<Rightarrow> ParsedZap option" where
  "parseZapReceipt decode json zapEvent =
     (case find_tag ''bolt11'' (ev_tags zapEvent) of
        None \<Rightarrow> None
      | Some bolt11Tag \<Rightarrow>
          if \<not> truthy_str (tag_at bolt11Tag 1) then None
          else
            let amount = parseBolt11Amount decode (the (tag_at bolt11Tag 1)) in
            if amount = 0 then None
            else
              let eTag = find_tag ''e'' (ev_tags zapEvent);
                  pTag = find_tag ''p'' (ev_tags zapEvent);
                  zapRequestDesc = find_tag ''description'' (ev_tags zapEvent);
                  zapRequest =
                    (case zapRequestDesc of
                       None \<Rightarrow> None
                     | Some d \<Rightarrow>
                         if truthy_str (tag_at d 1) then json (the (tag_at d 1)) else None);
                  comment =
                    (case zapRequest of
                       None \<Rightarrow> None
                     | Some zr \<Rightarrow> if truthy_str (zr_content zr) then zr_content zr else None);
                  zapperPubkey =
                    (case zapRequest of
                       None \<Rightarrow> ev_pubkey zapEvent
                     | Some zr \<Rightarrow>
                         if truthy_str (zr_pubkey zr) then the (zr_pubkey zr)
                         else ev_pubkey zapEvent);
                  zappedEvent =
                    (case eTag of
                       None \<Rightarrow> None
                     | Some e \<Rightarrow>
                         if truthy_str (tag_at e 1)
                         then Some \<lparr>ze_id = the (tag_at e 1), ze_kind = 1,
                                 ze_author =
                                   (case pTag of
                                      None \<Rightarrow> ''''
                                    | Some p \<Rightarrow>
                                        if truthy_str (tag_at p 1) then the (tag_at p 1) else ''''),
                                 ze_content = '''', ze_created_at = 0\<rparr>
                         else None)
              in Some \<lparr>receipt = zapEvent, zappedEvent = zappedEvent,
                      zapper = \<lparr>zp_pubkey = zapperPubkey, zp_name = None, zp_nip05 = None,
                                zp_picture = None\<rparr>,
                      amount = amount, comment = comment, zapRequest = zapRequest\<rparr>)"

definition isValidZapReceipt :: "Bolt11Decoder \<Rightarrow> NostrEvent \<Rightarrow> bool" where
  "isValidZapReceipt decode event =
     (if ev_kind event \<noteq> 9735 then False
      else
        (case find_tag ''bolt11'' (ev_tags event) of
           None \<Rightarrow> False
         | Some bolt11Tag \<Rightarrow>
             if \<not> truthy_str (tag_at bolt11Tag 1) then False
             else 0 < parseBolt11Amount decode (the (tag_at bolt11Tag 1))))"

text \<open>
  The value both functions decode: the second element of the first tag named
  \<open>bolt11\<close>, when that tag exists and the element is a non-empty string.
\<close>

definition bolt11_value :: "NostrEvent \<Rightarrow> string option" where
  "bolt11_value event =
     (case find_tag ''bolt11'' (ev_tags event) of
        None \<Rightarrow> None
      | Some t \<Rightarrow> if truthy_str (tag_at t 1) then tag_at t 1 else None)"

section \<open>Date ranges\<close>

record DateRange =
  since :: int
  until :: "int option"

text \<open>
  \<open>getDateRange\<close> reads the clock; \<open>nowMs\<close> is the value of \<open>Date.now()\<close> at the call.
  \<open>Math.floor(x / 1000)\<close> on an integer \<open>x\<close> is \<open>x div 1000\<close>.
\<close>

definition getDateRange :: "int \<Rightarrow> TimeRange \<Rightarrow> CustomDateRange option \<Rightarrow> DateRange" where
  "getDateRange nowMs timeRange customRange =
     (if timeRange = Custom \<and> customRange \<noteq> None
      then \<lparr>since = cr_from (the customRange) div 1000,
            until = Some (cr_to (the customRange) div 1000)\<rparr>
      else
        let config = TIME_RANGES timeRange;
            now = nowMs div 1000
        in (case days config of
              None \<Rightarrow> \<lparr>since = 0, until = None\<rparr>
            | Some d \<Rightarrow> \<lparr>since = now - int d * 24 * 60 * 60, until = Some now\<rparr>))"

text \<open>Truthiness of a number that may be undefined or null: defined and not zero.\<close>

fun truthy_int :: "int option \<Rightarrow> bool" where
  "truthy_int None = False"
| "truthy_int (Some n) = (n \<noteq> 0)"

text \<open>\<open>x || d\<close> for a number \<open>x\<close> that may be null.\<close>

fun or_else :: "nat option \<Rightarrow> nat \<Rightarrow> nat" where
  "or_else None d = d"
| "or_else (Some n) d = (if n \<noteq> 0 then n else d)"

section \<open>Progressive loading (hooks/useZapAnalytics)\<close>

definition INITIAL_BATCH_SIZE :: nat where "INITIAL_BATCH_SIZE = 1000"
definition MIN_BATCH_SIZE :: nat where "MIN_BATCH_SIZE = 250"
definition MAX_BATCH_SIZE :: nat where "MAX_BATCH_SIZE = 2000"
definition MAX_CONSECUTIVE_FAILURES :: nat where "MAX_CONSECUTIVE_FAILURES = 3"
definition BOUNDARY_TOLERANCE_SECONDS :: int where "BOUNDARY_TOLERANCE_SECONDS = 3600"

record ZapLoadingState =
  receipts :: "ZapReceipt list"
  isLoading :: bool
  isComplete :: bool
  currentBatch :: nat
  totalFetched :: nat
  relayLimit :: "nat option"
  error :: "string option"
  autoLoadEnabled :: bool
  consecutiveFailures :: nat
  allReceiptsCache :: "ZapReceipt list"

text \<open>
  What the hook holds besides its state: the loading ref, whether an automatic batch
  is scheduled on the timer, and the module-level cache of receipts per user.
\<close>

record Hook =
  state :: ZapLoadingState
  isLoadingRef :: bool
  autoLoadTimeout :: bool
  userZapCache :: "string \<rightharpoonup> ZapReceipt list"

record Filter =
  flt_kinds :: "nat list"
  flt_p :: "string list"
  flt_limit :: nat
  flt_since :: "int option"
  flt_until :: "int option"

text \<open>
  The relay pool is outside the repository: a query either throws (\<open>Inl\<close>, with the
  message; a timeout and an abort throw too) or returns events.
\<close>

type_synonym Relay = "Filter \<Rightarrow> string + NostrEvent list"

text \<open>The three readings of \<open>Date.now()\<close> during one call, in milliseconds.\<close>

record Clock =
  nowTry :: int
  nowUpdate :: int
  nowCheck :: int

text \<open>
  \<open>xs.sort((a, b) => b.created_at - a.created_at)\<close>: descending by time; the sort of
  JavaScript is stable, as \<open>sort_key\<close> is.
\<close>

definition sortDesc :: "ZapReceipt list \<Rightarrow> ZapReceipt list" where
  "sortDesc xs = sort_key (\<lambda>r. - ev_created_at r) xs"

text \<open>\<open>Math.min(...xs.map(r => r.created_at))\<close>, called on non-empty lists only.\<close>

definition oldestTimestamp :: "ZapReceipt list \<Rightarrow> int" where
  "oldestTimestamp xs = min_list (map ev_created_at xs)"

definition filterForRange :: "TimeRange \<Rightarrow> DateRange \<Rightarrow> ZapReceipt list \<Rightarrow> ZapReceipt list" where
  "filterForRange timeRange window xs =
     filter (\<lambda>receipt.
        if timeRange = Custom \<and> truthy_int (until window)
        then since window \<le> ev_created_at receipt \<and> ev_created_at receipt \<le> the (until window)
        else since window \<le> ev_created_at receipt) xs"

text \<open>The pagination cursor \<open>currentUntil\<close>.\<close>

definition currentUntil :: "ZapLoadingState \<Rightarrow> TimeRange \<Rightarrow> DateRange \<Rightarrow> int option" where
  "currentUntil currentState timeRange window =
     (if allReceiptsCache currentState \<noteq> []
      then
        let paginationUntil = oldestTimestamp (allReceiptsCache currentState) - 1
        in if timeRange = Custom \<and> truthy_int (until window)
           then Some (min paginationUntil (the (until window)))
           else Some paginationUntil
      else until window)"

definition batchSize :: "ZapLoadingState \<Rightarrow> bool \<Rightarrow> nat" where
  "batchSize currentState isAutomatic =
     (let b0 = or_else (relayLimit currentState) INITIAL_BATCH_SIZE;
          b1 = min b0 MAX_BATCH_SIZE
      in if isAutomatic \<and> 0 < currentBatch currentState
         then min b1 (or_else (relayLimit currentState) MIN_BATCH_SIZE)
         else b1)"

definition buildFilter :: "string \<Rightarrow> nat \<Rightarrow> int option \<Rightarrow> int \<Rightarrow> Filter" where
  "buildFilter pubkey limit cursor since' =
     \<lparr>flt_kinds = [9735], flt_p = [pubkey], flt_limit = limit,
      flt_since = (if 0 < since' then Some since' else None),
      flt_until = (if truthy_int cursor then cursor else None)\<rparr>"

text \<open>The update of the cache by one batch (the first line of the state update).\<close>

definition mergeReceipts :: "ZapReceipt list \<Rightarrow> ZapReceipt list \<Rightarrow> ZapReceipt list" where
  "mergeReceipts cache validReceipts = sortDesc (cache @ validReceipts)"

definition detectLimit :: "nat \<Rightarrow> nat \<Rightarrow> nat option \<Rightarrow> nat option" where
  "detectLimit received requested prevLimit =
     (if received < requested \<and> 0 < received
      then Some (max received MIN_BATCH_SIZE)
      else prevLimit)"

text \<open>
  The completion decision of the state update. \<open>currentState\<close> is the state the call
  started from; \<open>nowCheckMs\<close> is \<open>Date.now()\<close>, read when the cache is empty.
\<close>

definition completionCheck ::
  "int \<Rightarrow> TimeRange \<Rightarrow> int \<Rightarrow> ZapLoadingState \<Rightarrow> ZapReceipt list \<Rightarrow> bool" where
  "completionCheck nowCheckMs timeRange since' currentState validReceipts =
     (if validReceipts = []
      then
        (if timeRange \<noteq> Custom
         then
           let oldestInCache =
                 (if allReceiptsCache currentState \<noteq> []
                  then rat_of_int (oldestTimestamp (allReceiptsCache currentState))
                  else rat_of_int nowCheckMs / 1000)
           in oldestInCache \<le> rat_of_int (since' + BOUNDARY_TOLERANCE_SECONDS)
         else True)
      else if timeRange \<noteq> Custom
      then oldestTimestamp validReceipts \<le> since' + BOUNDARY_TOLERANCE_SECONDS
      else False)"

text \<open>The state update after a batch has arrived (the callback of \<open>setState\<close>).\<close>

definition fetchSucceeded ::
  "Clock \<Rightarrow> TimeRange \<Rightarrow> CustomDateRange option \<Rightarrow> ZapLoadingState \<Rightarrow> nat \<Rightarrow>
   ZapReceipt list \<Rightarrow> ZapLoadingState \<Rightarrow> ZapLoadingState" where
  "fetchSucceeded clock timeRange customRange currentState requested validReceipts prev =
     (let allReceipts = mergeReceipts (allReceiptsCache prev) validReceipts;
          window = getDateRange (nowUpdate clock) timeRange customRange;
          filteredReceipts = filterForRange timeRange window allReceipts;
          detectedLimit = detectLimit (length validReceipts) requested (relayLimit prev);
          complete =
            completionCheck (nowCheck clock) timeRange (since window) currentState validReceipts
      in prev\<lparr>receipts := filteredReceipts,
              allReceiptsCache := allReceipts,
              isLoading := False,
              isComplete := complete,
              currentBatch := currentBatch prev + 1,
              totalFetched := length filteredReceipts,
              relayLimit := detectedLimit,
              consecutiveFailures := 0\<rparr>)"

text \<open>The state update of the \<open>catch\<close> block.\<close>

definition fetchFailed :: "string \<Rightarrow> ZapLoadingState \<Rightarrow> ZapLoadingState" where
  "fetchFailed message prev =
     prev\<lparr>isLoading := False,
          error := Some message,
          consecutiveFailures := consecutiveFailures prev + 1,
          autoLoadEnabled := (consecutiveFailures prev + 1 < MAX_CONSECUTIVE_FAILURES)\<rparr>"

text \<open>The two early returns of \<open>loadMoreZaps\<close>: the call goes on when this holds.\<close>

definition canLoad :: "string option \<Rightarrow> bool \<Rightarrow> Hook \<Rightarrow> bool" where
  "canLoad userPubkey isAutomatic h =
     (if userPubkey = None \<or> isLoadingRef h \<or> isComplete (state h) then False
      else if isAutomatic \<and>
              (\<not> autoLoadEnabled (state h) \<or>
               MAX_CONSECUTIVE_FAILURES \<le> consecutiveFailures (state h))
      then False
      else True)"

text \<open>\<open>n >= batchSize * 0.9 || n >= 100\<close>, for a batch of \<open>n > 0\<close> receipts.\<close>

definition shouldContinueAutoLoad :: "nat \<Rightarrow> nat \<Rightarrow> bool" where
  "shouldContinueAutoLoad n requested =
     (0 < n \<and> (rat_of_nat requested * (9 / 10) \<le> rat_of_nat n \<or> 100 \<le> n))"

text \<open>The filter of the request: the cursor, the batch size and the window's start.\<close>

definition requestFilter ::
  "Clock \<Rightarrow> string option \<Rightarrow> TimeRange \<Rightarrow> CustomDateRange option \<Rightarrow> bool \<Rightarrow> Hook \<Rightarrow> Filter" where
  "requestFilter clock userPubkey timeRange customRange isAutomatic h =
     (let currentState = state h;
          window = getDateRange (nowTry clock) timeRange customRange;
          cursor = currentUntil currentState timeRange window;
          requested = batchSize currentState isAutomatic
      in buildFilter (the userPubkey) requested cursor (since window))"

text \<open>
  One call of \<open>loadMoreZaps\<close>, from the hook before the call to the hook once the
  promise has settled. The state the call started from and the state the updates are
  applied to are the same: no other update runs in between.
\<close>

definition loadMoreZaps ::
  "Bolt11Decoder \<Rightarrow> Relay \<Rightarrow> Clock \<Rightarrow> string option \<Rightarrow> TimeRange \<Rightarrow>
   CustomDateRange option \<Rightarrow> bool \<Rightarrow> Hook \<Rightarrow> Hook" where
  "loadMoreZaps decode query clock userPubkey timeRange customRange isAutomatic h =
     (if \<not> canLoad userPubkey isAutomatic h then h
      else
        let currentState = state h;
            pubkey = the userPubkey;
            loading = (state h)\<lparr>isLoading := True, error := None\<rparr>;
            requested = batchSize currentState isAutomatic
        in (case query (requestFilter clock userPubkey timeRange customRange isAutomatic h) of
              Inl message \<Rightarrow>
                h\<lparr>state := fetchFailed message loading, isLoadingRef := False\<rparr>
            | Inr events \<Rightarrow>
                let validReceipts = sortDesc (filter (isValidZapReceipt decode) events);
                    updated =
                      fetchSucceeded clock timeRange customRange currentState requested
                        validReceipts loading
                in h\<lparr>state := updated,
                     userZapCache := (userZapCache h)(pubkey \<mapsto> allReceiptsCache updated),
                     autoLoadTimeout :=
                       (if isAutomatic \<and> shouldContinueAutoLoad (length validReceipts) requested
                        then True else autoLoadTimeout h),
                     isLoadingRef := False\<rparr>))"

text \<open>The state of the hook when it is created, and after the user changes.\<close>

definition initialState :: ZapLoadingState where
  "initialState =
     \<lparr>receipts = [], isLoading = False, isComplete = False, currentBatch = 0,
      totalFetched = 0, relayLimit = None, error = None, autoLoadEnabled = True,
      consecutiveFailures = 0, allReceiptsCache = []\<rparr>"

text \<open>
  The effect that runs when the user, the time range or the custom range changes (and on
  mount): the hook's copy of the records is read from the user's entry of the module-level
  cache; \<open>nowMs\<close> is \<open>Date.now()\<close> at the call of \<open>getDateRange\<close>.
\<close>

definition initializeFromCache ::
  "int \<Rightarrow> string option \<Rightarrow> TimeRange \<Rightarrow> CustomDateRange option \<Rightarrow> Hook \<Rightarrow> Hook" where
  "initializeFromCache nowMs userPubkey timeRange customRange h =
     (if userPubkey = None then h
      else
        let userCache =
              (case userZapCache h (the userPubkey) of None \<Rightarrow> [] | Some c \<Rightarrow> c);
            window = getDateRange nowMs timeRange customRange;
            filteredReceipts = filterForRange timeRange window userCache;
            oldestCachedTimestamp = (if userCache \<noteq> [] then oldestTimestamp userCache else 0);
            hasCompleteCoverage = (userCache \<noteq> [] \<and> oldestCachedTimestamp \<le> since window)
        in h\<lparr>state := (state h)\<lparr>receipts := filteredReceipts,
                                allReceiptsCache := userCache,
                                totalFetched := length filteredReceipts,
                                isComplete := hasCompleteCoverage,
                                error := None\<rparr>\<rparr>)"

text \<open>
  The effect that runs when the user changes (and on mount): the timer is cleared and the
  state is set to the initial state; the module-level cache is not touched.
\<close>

definition resetOnUserChange :: "Hook \<Rightarrow> Hook" where
  "resetOnUserChange h =
     h\<lparr>state := initialState, isLoadingRef := False, autoLoadTimeout := False\<rparr>"

text \<open>
  On mount and on a change of the user both effects run, in the order of their
  declaration, and the state update of the second is applied last.
\<close>

definition userChanged ::
  "int \<Rightarrow> string option \<Rightarrow> TimeRange \<Rightarrow> CustomDateRange option \<Rightarrow> Hook \<Rightarrow> Hook" where
  "userChanged nowMs userPubkey timeRange customRange h =
     resetOnUserChange (initializeFromCache nowMs userPubkey timeRange customRange h)"

section \<open>Dates\<close>

text \<open>
  The \<open>Date\<close> object of the host is outside the repository, and its local-time methods
  depend on the time zone of the host. The functions that use it take it as a parameter:
  a date is its \<open>getTime()\<close> in milliseconds, \<open>newDate y m d h\<close> is
  \<open>new Date(y, m, d, h)\<close>, and \<open>setDate t d\<close> is the time of \<open>t\<close> after
  \<open>t.setDate(d)\<close>. \<open>toISOString\<close> throws a \<open>RangeError\<close> on a time outside the range
  of dates: it returns \<open>None\<close> then. A time outside the range of dates makes an invalid
  date, whose getters return \<open>NaN\<close>; \<open>NaN\<close> is no year, month, day or hour and no key
  of a \<open>Map\<close> of buckets, and it is a number outside the range of every getter here.
\<close>

record JsDate =
  toISOString :: "int \<Rightarrow> string option"
  getFullYear :: "int \<Rightarrow> int"
  getMonth :: "int \<Rightarrow> int"
  getDate :: "int \<Rightarrow> int"
  getHours :: "int \<Rightarrow> int"
  getDay :: "int \<Rightarrow> int"
  newDate :: "int \<Rightarrow> int \<Rightarrow> int \<Rightarrow> int \<Rightarrow> int"
  setDate :: "int \<Rightarrow> int \<Rightarrow> int"

section \<open>Doubles\<close>

text \<open>
  A number of JavaScript is an IEEE 754 double. A non-negative finite double is
  \<open>m * 2 ^ e\<close> for a significand \<open>m\<close> of at most 53 bits and an exponent \<open>e\<close>; it is
  the pair \<open>(m, e)\<close> here, and \<open>dval\<close> is its value. The result of a division or a
  multiplication is the exact result rounded to the nearest double, a tie to the even
  significand: \<open>toDouble n d\<close> is the double nearest to \<open>n / d\<close> for \<open>d > 0\<close>. The
  amounts and their sums are integers below \<open>2 ^ 53\<close>, which are doubles exactly; their
  quotients and the products of these by 100 are far from the least and the greatest
  double, so that the exponent is not bounded here.
\<close>

type_synonym double = "nat \<times> int"

definition dval :: "double \<Rightarrow> rat" where
  "dval x =
     (case x of (m, e) \<Rightarrow>
        if e < 0 then rat_of_nat m / 2 ^ nat (- e) else rat_of_nat m * 2 ^ nat e)"

text \<open>The number of binary digits of \<open>n\<close>.\<close>

fun bitlen :: "nat \<Rightarrow> nat" where
  "bitlen n = (if n = 0 then 0 else Suc (bitlen (n div 2)))"

declare bitlen.simps [simp del]

text \<open>The integer nearest to \<open>n / d\<close>, the even one of two that are equally near.\<close>

definition roundHalfEven :: "nat \<Rightarrow> nat \<Rightarrow> nat" where
  "roundHalfEven n d =
     (let q = n div d; r = n mod d
      in if 2 * r < d then q
         else if d < 2 * r then q + 1
         else if even q then q else q + 1)"

text \<open>
  The exponent \<open>e\<close> is the one with \<open>2 ^ 52 \<le> n / (d * 2 ^ e) < 2 ^ 53\<close>: it is
  \<open>bitlen n - bitlen d - 53\<close> or the next integer.
\<close>

definition toDouble :: "nat \<Rightarrow> nat \<Rightarrow> double" where
  "toDouble n d =
     (if n = 0 then (0, 0)
      else
        let e1 = int (bitlen n) - int (bitlen d) - 53;
            num = (\<lambda>e. if e < 0 then n * 2 ^ nat (- e) else n);
            den = (\<lambda>e. if e < 0 then d else d * 2 ^ nat e);
            e = (if num e1 < 2 ^ 53 * den e1 then e1 else e1 + 1)
        in (roundHalfEven (num e) (den e), e))"

text \<open>\<open>a / b\<close> for two integers that are doubles, and \<open>x * k\<close> for such an integer \<open>k\<close>.\<close>

definition double_div :: "nat \<Rightarrow> nat \<Rightarrow> double" where
  "double_div a b = toDouble a b"

definition double_times :: "double \<Rightarrow> nat \<Rightarrow> double" where
  "double_times x k =
     (case x of (m, e) \<Rightarrow>
        if e < 0 then toDouble (m * k) (2 ^ nat (- e)) else toDouble (m * k * 2 ^ nat e) 1)"

section \<open>Grouping by period, kind, hour and day (lib/zaplytics/utils)\<close>

text \<open>
  A JavaScript \<open>Map\<close> is an association list in insertion order with one entry per key:
  \<open>get\<close> is \<open>map_of\<close>, and \<open>set\<close> is \<open>AList.update\<close>, which replaces the value of a
  key in place and appends a new key at the end.
\<close>

record PeriodStats =
  ps_totalSats :: nat
  ps_zapCount :: nat
  ps_date :: int

record EarningsByPeriod =
  ep_period :: string
  ep_totalSats :: nat
  ep_zapCount :: nat
  ep_date :: int

text \<open>The granularity: that of the range, or for a custom range one chosen by its length.\<close>

definition periodGroupBy :: "TimeRange \<Rightarrow> CustomDateRange option \<Rightarrow> GroupBy" where
  "periodGroupBy timeRange customRange =
     (if timeRange = Custom \<and> customRange \<noteq> None
      then
        let daysDiff =
              ceil_div (cr_to (the customRange) - cr_from (the customRange))
                (1000 * 60 * 60 * 24)
        in if daysDiff \<le> 2 then Hour
           else if daysDiff \<le> 31 then Day
           else if daysDiff \<le> 90 then Week
           else Month
      else groupBy (TIME_RANGES timeRange))"

text \<open>
  The key and the date of the period of a time \<open>date\<close> (in milliseconds); \<open>None\<close> when
  \<open>toISOString\<close> throws.
\<close>

fun periodOf :: "JsDate \<Rightarrow> GroupBy \<Rightarrow> int \<Rightarrow> (string \<times> int) option" where
  "periodOf js Hour date =
     (case toISOString js date of
        None \<Rightarrow> None
      | Some isoString \<Rightarrow>
          Some (take 13 isoString @ '':00:00.000Z'',
                newDate js (getFullYear js date) (getMonth js date) (getDate js date)
                  (getHours js date)))"
| "periodOf js Day date =
     (case toISOString js date of
        None \<Rightarrow> None
      | Some isoString \<Rightarrow>
          Some (take 10 isoString,
                newDate js (getFullYear js date) (getMonth js date) (getDate js date) 0))"
| "periodOf js Week date =
     (let weekStart = setDate js date (getDate js date - getDay js date)
      in (case toISOString js weekStart of
            None \<Rightarrow> None
          | Some isoString \<Rightarrow>
              Some (take 10 isoString,
                    newDate js (getFullYear js weekStart) (getMonth js weekStart)
                      (getDate js weekStart) 0)))"
| "periodOf js Month date =
     (case toISOString js date of
        None \<Rightarrow> None
      | Some isoString \<Rightarrow>
          Some (take 7 isoString, newDate js (getFullYear js date) (getMonth js date) 1 0))"

text \<open>The loop over the zaps; an exception of the body ends it.\<close>

fun periodLoop ::
  "JsDate \<Rightarrow> GroupBy \<Rightarrow> ParsedZap list \<Rightarrow> (string \<times> PeriodStats) list \<Rightarrow>
   (string \<times> PeriodStats) list option" where
  "periodLoop js groupBy' [] grouped = Some grouped"
| "periodLoop js groupBy' (zap # zaps) grouped =
     (case periodOf js groupBy' (ev_created_at (receipt zap) * 1000) of
        None \<Rightarrow> None
      | Some (periodKey, periodDate) \<Rightarrow>
          let existing =
                (case map_of grouped periodKey of
                   Some e \<Rightarrow> e
                 | None \<Rightarrow> \<lparr>ps_totalSats = 0, ps_zapCount = 0, ps_date = periodDate\<rparr>)
          in periodLoop js groupBy' zaps
               (AList.update periodKey
                  (existing\<lparr>ps_totalSats := ps_totalSats existing + amount zap,
                            ps_zapCount := ps_zapCount existing + 1\<rparr>) grouped))"

definition periodEntry :: "string \<times> PeriodStats \<Rightarrow> EarningsByPeriod" where
  "periodEntry =
     (\<lambda>(period, stats).
        \<lparr>ep_period = period, ep_totalSats = ps_totalSats stats,
         ep_zapCount = ps_zapCount stats, ep_date = ps_date stats\<rparr>)"

definition groupZapsByPeriod ::
  "JsDate \<Rightarrow> ParsedZap list \<Rightarrow> TimeRange \<Rightarrow> CustomDateRange option \<Rightarrow>
   EarningsByPeriod list option" where
  "groupZapsByPeriod js zaps timeRange customRange =
     (case periodLoop js (periodGroupBy timeRange customRange) zaps [] of
        None \<Rightarrow> None
      | Some grouped \<Rightarrow> Some (sort_key ep_date (map periodEntry grouped)))"

text \<open>The grand total of the snapshot: \<open>parsedZaps.reduce((sum, zap) => sum + zap.amount, 0)\<close>.\<close>

definition totalEarnings :: "ParsedZap list \<Rightarrow> nat" where
  "totalEarnings parsedZaps = foldl (\<lambda>sum zap. sum + amount zap) 0 parsedZaps"

record SatsCount =
  sc_totalSats :: nat
  sc_zapCount :: nat

record EarningsByKind =
  ek_kind :: nat
  ek_kindName :: string
  ek_totalSats :: nat
  ek_zapCount :: nat
  ek_percentage :: double

definition KIND_NAMES :: "(nat \<times> string) list" where
  "KIND_NAMES =
     [(0, ''Profiles''), (1, ''Notes''), (3, ''Contact Lists''), (4, ''Encrypted DMs''),
      (5, ''Event Deletions''), (6, ''Reactions''), (7, ''Reactions''),
      (40, ''Channel Creation''), (41, ''Channel Metadata''), (42, ''Channel Message''),
      (43, ''Channel Hide Message''), (44, ''Channel Mute User''),
      (1984, ''Problem Reports''), (9734, ''Zap Requests''), (9735, ''Zap Receipts''),
      (10002, ''Relay List Metadata''), (22242, ''Client Auth''), (30000, ''People Lists''),
      (30001, ''Bookmarks Lists''), (30008, ''Profile Badges''),
      (30009, ''Badge Definitions''), (30017, ''Create/Update Stall''),
      (30018, ''Create/Update Product''), (30023, ''Long-form Articles''),
      (30024, ''Draft Long-form Articles''), (30311, ''Live Events''),
      (30315, ''User Statuses''), (30402, ''Classified Listings''),
      (30403, ''Draft Classified Listings''), (31922, ''Date-Based Calendar Event''),
      (31923, ''Time-Based Calendar Event''), (31924, ''Calendar''),
      (31925, ''Calendar Event RSVP''), (31989, ''Handler Recommendation''),
      (31990, ''Handler Information''), (34550, ''Community Definition'')]"

text \<open>The decimal digits of a number, as a template literal prints it.\<close>

fun show_nat :: "nat \<Rightarrow> string" where
  "show_nat n =
     (if n < 10 then [char_of (48 + n)]
      else show_nat (n div 10) @ [char_of (48 + n mod 10)])"

definition kindName :: "nat \<Rightarrow> string" where
  "kindName kind' =
     (case map_of KIND_NAMES kind' of Some name \<Rightarrow> name | None \<Rightarrow> ''Kind '' @ show_nat kind')"

definition kindStep :: "(nat \<times> SatsCount) list \<Rightarrow> ParsedZap \<Rightarrow> (nat \<times> SatsCount) list" where
  "kindStep grouped zap =
     (case zappedEvent zap of
        None \<Rightarrow> grouped
      | Some ze \<Rightarrow>
          let kind' = ze_kind ze;
              existing =
                (case map_of grouped kind' of
                   Some e \<Rightarrow> e
                 | None \<Rightarrow> \<lparr>sc_totalSats = 0, sc_zapCount = 0\<rparr>)
          in AList.update kind'
               (existing\<lparr>sc_totalSats := sc_totalSats existing + amount zap,
                         sc_zapCount := sc_zapCount existing + 1\<rparr>) grouped)"

text \<open>
  The entry of one kind, with its share of the grand total \<open>totalSats\<close>:
  \<open>totalSats > 0 ? (stats.totalSats / totalSats) * 100 : 0\<close>, a double.
\<close>

definition kindEntry :: "nat \<Rightarrow> nat \<times> SatsCount \<Rightarrow> EarningsByKind" where
  "kindEntry totalSats =
     (\<lambda>(kind', stats).
        \<lparr>ek_kind = kind', ek_kindName = kindName kind',
         ek_totalSats = sc_totalSats stats, ek_zapCount = sc_zapCount stats,
         ek_percentage =
           (if 0 < totalSats
            then double_times (double_div (sc_totalSats stats) totalSats) 100
            else (0, 0))\<rparr>)"

definition groupZapsByKind :: "ParsedZap list \<Rightarrow> EarningsByKind list" where
  "groupZapsByKind zaps =
     (let totalSats = foldl (\<lambda>sum zap. sum + amount zap) 0 zaps;
          grouped = foldl kindStep [] zaps
      in sort_key (\<lambda>e. - int (ek_totalSats e)) (map (kindEntry totalSats) grouped))"

record EarningsByHour =
  eh_hour :: int
  eh_totalSats :: nat
  eh_zapCount :: nat
  eh_avgZapAmount :: int

record EarningsByDayOfWeek =
  ed_dayOfWeek :: int
  ed_dayName :: string
  ed_totalSats :: nat
  ed_zapCount :: nat
  ed_avgZapAmount :: int

text \<open>
  The loop the two temporal groupings share. The buckets are all there before the loop;
  \<open>grouped.get(key)!\<close> is undefined for any other key, and the update of the undefined
  value throws a \<open>TypeError\<close>: the result is \<open>None\<close> then.
\<close>

fun tally ::
  "(ParsedZap \<Rightarrow> int) \<Rightarrow> ParsedZap list \<Rightarrow> (int \<times> SatsCount) list \<Rightarrow>
   (int \<times> SatsCount) list option" where
  "tally key [] grouped = Some grouped"
| "tally key (zap # zaps) grouped =
     (case map_of grouped (key zap) of
        None \<Rightarrow> None
      | Some existing \<Rightarrow>
          tally key zaps
            (AList.update (key zap)
               (existing\<lparr>sc_totalSats := sc_totalSats existing + amount zap,
                         sc_zapCount := sc_zapCount existing + 1\<rparr>) grouped))"

definition emptyBuckets :: "nat \<Rightarrow> (int \<times> SatsCount) list" where
  "emptyBuckets n = map (\<lambda>i. (int i, \<lparr>sc_totalSats = 0, sc_zapCount = 0\<rparr>)) [0..<n]"

definition avgZapAmount :: "SatsCount \<Rightarrow> int" where
  "avgZapAmount stats =
     (if 0 < sc_zapCount stats
      then Math_round (rat_of_nat (sc_totalSats stats) / rat_of_nat (sc_zapCount stats))
      else 0)"

definition hourEntry :: "int \<times> SatsCount \<Rightarrow> EarningsByHour" where
  "hourEntry =
     (\<lambda>(hour, stats).
        \<lparr>eh_hour = hour, eh_totalSats = sc_totalSats stats, eh_zapCount = sc_zapCount stats,
         eh_avgZapAmount = avgZapAmount stats\<rparr>)"

definition groupZapsByHour :: "JsDate \<Rightarrow> ParsedZap list \<Rightarrow> EarningsByHour list option" where
  "groupZapsByHour js zaps =
     (case tally (\<lambda>zap. getHours js (ev_created_at (receipt zap) * 1000)) zaps
             (emptyBuckets 24) of
        None \<Rightarrow> None
      | Some grouped \<Rightarrow> Some (sort_key eh_hour (map hourEntry grouped)))"

definition dayNames :: "string list" where
  "dayNames =
     [''Sunday'', ''Monday'', ''Tuesday'', ''Wednesday'', ''Thursday'', ''Friday'',
      ''Saturday'']"

definition dayEntry :: "int \<times> SatsCount \<Rightarrow> EarningsByDayOfWeek" where
  "dayEntry =
     (\<lambda>(dayOfWeek, stats).
        \<lparr>ed_dayOfWeek = dayOfWeek, ed_dayName = dayNames ! nat dayOfWeek,
         ed_totalSats = sc_totalSats stats, ed_zapCount = sc_zapCount stats,
         ed_avgZapAmount = avgZapAmount stats\<rparr>)"

definition groupZapsByDayOfWeek ::
  "JsDate \<Rightarrow> ParsedZap list \<Rightarrow> EarningsByDayOfWeek list option" where
  "groupZapsByDayOfWeek js zaps =
     (case tally (\<lambda>zap. getDay js (ev_created_at (receipt zap) * 1000)) zaps
             (emptyBuckets 7) of
        None \<Rightarrow> None
      | Some grouped \<Rightarrow> Some (sort_key ed_dayOfWeek (map dayEntry grouped)))"

section \<open>A host in the UTC time zone\<close>

text \<open>
  An instance of the \<open>Date\<close> parameter for evaluating the groupings on concrete
  inputs: the dates of a host whose time zone is UTC, in the proleptic Gregorian calendar.
  \<open>civil_from_days\<close> is the year, month and day of a day number counted from
  1970-01-01, and \<open>days_from_civil\<close> is the day number of a date.
\<close>

definition civil_from_days :: "int \<Rightarrow> int \<times> int \<times> int" where
  "civil_from_days z0 =
     (let z = z0 + 719468;
          era = z div 146097;
          doe = z mod 146097;
          yoe = (doe - doe div 1460 + doe div 36524 - doe div 146096) div 365;
          doy = doe - (365 * yoe + yoe div 4 - yoe div 100);
          mp = (5 * doy + 2) div 153;
          d = doy - (153 * mp + 2) div 5 + 1;
          m = (if mp < 10 then mp + 3 else mp - 9);
          y = yoe + era * 400 + (if m \<le> 2 then 1 else 0)
      in (y, m, d))"

definition days_from_civil :: "int \<Rightarrow> int \<Rightarrow> int \<Rightarrow> int" where
  "days_from_civil y0 m d =
     (let y = (if m \<le> 2 then y0 - 1 else y0);
          era = y div 400;
          yoe = y mod 400;
          doy = (153 * (if 2 < m then m - 3 else m + 9) + 2) div 5 + d - 1;
          doe = yoe * 365 + yoe div 4 - yoe div 100 + doy
      in era * 146097 + doe - 719468)"

definition pad :: "nat \<Rightarrow> int \<Rightarrow> string" where
  "pad w n = (let s = show_nat (nat n) in replicate (w - length s) CHR ''0'' @ s)"

text \<open>
  The year takes four digits from 0 to 9999, and a sign and six digits otherwise; a time
  more than 8640000000000000 milliseconds from the epoch is no date.
\<close>

definition isoYear :: "int \<Rightarrow> string" where
  "isoYear y =
     (if 0 \<le> y \<and> y \<le> 9999 then pad 4 y
      else if y < 0 then ''-'' @ pad 6 (- y)
      else ''+'' @ pad 6 y)"

definition utc_toISOString :: "int \<Rightarrow> string option" where
  "utc_toISOString t =
     (if t < - 8640000000000000 \<or> 8640000000000000 < t then None
      else
        let (y, m, d) = civil_from_days (t div 86400000);
            ms = t mod 86400000
        in Some (isoYear y @ ''-'' @ pad 2 m @ ''-'' @ pad 2 d @ ''T'' @
                 pad 2 (ms div 3600000) @ '':'' @ pad 2 (ms div 60000 mod 60) @ '':'' @
                 pad 2 (ms div 1000 mod 60) @ ''.'' @ pad 3 (ms mod 1000) @ ''Z''))"

text \<open>
  The getters of an invalid date return \<open>NaN\<close>, and a date made from \<open>NaN\<close> is
  invalid. \<open>new Date(y, m, d, h)\<close> reads a year from 0 to 99 as a year of the twentieth
  century.
\<close>

definition validTime :: "int \<Rightarrow> bool" where
  "validTime t \<longleftrightarrow> - 8640000000000000 \<le> t \<and> t \<le> 8640000000000000"

definition NaN :: int where
  "NaN = - (2 ^ 63)"

definition utcDate :: JsDate where
  "utcDate =
     \<lparr>toISOString = utc_toISOString,
      getFullYear = (\<lambda>t. if validTime t then fst (civil_from_days (t div 86400000)) else NaN),
      getMonth =
        (\<lambda>t. if validTime t then fst (snd (civil_from_days (t div 86400000))) - 1 else NaN),
      getDate = (\<lambda>t. if validTime t then snd (snd (civil_from_days (t div 86400000))) else NaN),
      getHours = (\<lambda>t. if validTime t then t div 3600000 mod 24 else NaN),
      getDay = (\<lambda>t. if validTime t then (t div 86400000 + 4) mod 7 else NaN),
      newDate =
        (\<lambda>y m d h.
           if y = NaN \<or> m = NaN \<or> d = NaN \<or> h = NaN then NaN
           else days_from_civil (if 0 \<le> y \<and> y \<le> 99 then 1900 + y else y) (m + 1) d * 86400000
                + h * 3600000),
      setDate =
        (\<lambda>t d. if validTime t \<and> d \<noteq> NaN
               then t + (d - snd (snd (civil_from_days (t div 86400000)))) * 86400000
               else NaN)\<rparr>"

section \<open>Loyalty analysis (lib/zaplytics/utils)\<close>

record ZapperInfo =
  zi_pubkey :: string
  zi_name :: "string option"
  zi_picture :: "string option"
  zi_zaps :: "ParsedZap list"
  zi_totalSats :: nat
  zi_zapCount :: nat

datatype Category = Whale | Regular | Occasional | OneTime

record ZapperLoyalty =
  zl_pubkey :: string
  zl_name :: "string option"
  zl_picture :: "string option"
  zl_zapCount :: nat
  zl_totalSats :: nat
  zl_firstZapDate :: int
  zl_lastZapDate :: int
  zl_daysBetweenFirstAndLast :: int
  zl_averageDaysBetweenZaps :: rat
  zl_isRegular :: bool
  zl_category :: Category

record LoyaltyStats =
  newZappers :: nat
  returningZappers :: nat
  regularSupporters :: nat
  averageLifetimeValue :: int
  topLoyalZappers :: "ZapperLoyalty list"

text \<open>The first loop: the zaps of each zapper, in a \<open>Map\<close> keyed by the public key.\<close>

definition zapperStep ::
  "(string \<times> ZapperInfo) list \<Rightarrow> ParsedZap \<Rightarrow> (string \<times> ZapperInfo) list" where
  "zapperStep zapperData zap =
     (case map_of zapperData (zp_pubkey (zapper zap)) of
        Some existing \<Rightarrow>
          AList.update (zp_pubkey (zapper zap))
            (existing\<lparr>zi_zaps := zi_zaps existing @ [zap],
                      zi_totalSats := zi_totalSats existing + amount zap,
                      zi_zapCount := zi_zapCount existing + 1\<rparr>) zapperData
      | None \<Rightarrow>
          AList.update (zp_pubkey (zapper zap))
            \<lparr>zi_pubkey = zp_pubkey (zapper zap), zi_name = zp_name (zapper zap),
             zi_picture = zp_picture (zapper zap), zi_zaps = [zap],
             zi_totalSats = amount zap, zi_zapCount = 1\<rparr> zapperData)"

definition zapperData :: "ParsedZap list \<Rightarrow> (string \<times> ZapperInfo) list" where
  "zapperData zaps = foldl zapperStep [] zaps"

text \<open>
  The body of the second loop, for one zapper. Every zapper of the map has at least one
  zap, so \<open>sortedZaps[0]\<close> and the last element exist.
\<close>

definition analyzeZapper :: "ZapperInfo \<Rightarrow> ZapperLoyalty" where
  "analyzeZapper zapperInfo =
     (let sortedZaps = sort_key (\<lambda>z. ev_created_at (receipt z)) (zi_zaps zapperInfo);
          firstZapDate = ev_created_at (receipt (hd sortedZaps)) * 1000;
          lastZapDate = ev_created_at (receipt (last sortedZaps)) * 1000;
          daysBetweenFirstAndLast =
            (if 1 < zi_zapCount zapperInfo
             then ceil_div (lastZapDate - firstZapDate) (1000 * 60 * 60 * 24)
             else 0);
          averageDaysBetweenZaps =
            (if 1 < zi_zapCount zapperInfo
             then rat_of_int daysBetweenFirstAndLast / rat_of_nat (zi_zapCount zapperInfo - 1)
             else 0);
          category =
            (if zi_zapCount zapperInfo = 1 then OneTime
             else if 10000 \<le> zi_totalSats zapperInfo then Whale
             else if 5 \<le> zi_zapCount zapperInfo \<or>
                     (3 \<le> zi_zapCount zapperInfo \<and> averageDaysBetweenZaps \<le> 7)
             then Regular
             else Occasional)
      in \<lparr>zl_pubkey = zi_pubkey zapperInfo, zl_name = zi_name zapperInfo,
          zl_picture = zi_picture zapperInfo, zl_zapCount = zi_zapCount zapperInfo,
          zl_totalSats = zi_totalSats zapperInfo, zl_firstZapDate = firstZapDate,
          zl_lastZapDate = lastZapDate,
          zl_daysBetweenFirstAndLast = daysBetweenFirstAndLast,
          zl_averageDaysBetweenZaps = averageDaysBetweenZaps,
          zl_isRegular = (category = Regular), zl_category = category\<rparr>)"

text \<open>The state of the second loop: the analysis so far and the three counters.\<close>

record LoyaltyLoop =
  loyaltyAnalysis :: "ZapperLoyalty list"
  ll_newZappers :: nat
  ll_returningZappers :: nat
  ll_regularSupporters :: nat

definition loyaltyStep :: "LoyaltyLoop \<Rightarrow> ZapperInfo \<Rightarrow> LoyaltyLoop" where
  "loyaltyStep acc zapperInfo =
     (let entry = analyzeZapper zapperInfo
      in \<lparr>loyaltyAnalysis = loyaltyAnalysis acc @ [entry],
          ll_newZappers =
            (if zi_zapCount zapperInfo = 1 then ll_newZappers acc + 1 else ll_newZappers acc),
          ll_returningZappers =
            (if zi_zapCount zapperInfo = 1 then ll_returningZappers acc
             else ll_returningZappers acc + 1),
          ll_regularSupporters =
            (if zi_zapCount zapperInfo \<noteq> 1 \<and> zl_category entry = Regular
             then ll_regularSupporters acc + 1 else ll_regularSupporters acc)\<rparr>)"

definition loyaltyLoop :: "ParsedZap list \<Rightarrow> LoyaltyLoop" where
  "loyaltyLoop zaps =
     foldl loyaltyStep
       \<lparr>loyaltyAnalysis = [], ll_newZappers = 0, ll_returningZappers = 0,
        ll_regularSupporters = 0\<rparr>
       (map snd (zapperData zaps))"

definition analyzeZapperLoyalty :: "ParsedZap list \<Rightarrow> LoyaltyStats" where
  "analyzeZapperLoyalty zaps =
     (let loop = loyaltyLoop zaps;
          totalZappers = length (zapperData zaps);
          totalSats = foldl (\<lambda>sum zapper'. sum + zi_totalSats zapper') 0
                        (map snd (zapperData zaps));
          averageLifetimeValue' =
            (if 0 < totalZappers
             then Math_round (rat_of_nat totalSats / rat_of_nat totalZappers)
             else 0)
      in \<lparr>newZappers = ll_newZappers loop,
          returningZappers = ll_returningZappers loop,
          regularSupporters = ll_regularSupporters loop,
          averageLifetimeValue = averageLifetimeValue',
          topLoyalZappers =
            take 10 (sort_key (\<lambda>z. - int (zl_totalSats z))
                       (filter (\<lambda>z. 1 < zl_zapCount z) (loyaltyAnalysis loop)))\<rparr>)"

section \<open>Hashtag analysis (lib/zaplytics/utils)\<close>

text \<open>The characters of the class \<open>[a-zA-Z0-9_]\<close>, and \<open>toLowerCase\<close> on them.\<close>

definition isWordChar :: "char \<Rightarrow> bool" where
  "isWordChar c =
     (let n = (of_char c :: nat)
      in (97 \<le> n \<and> n \<le> 122) \<or> (65 \<le> n \<and> n \<le> 90) \<or> (48 \<le> n \<and> n \<le> 57) \<or> n = 95)"

definition toLowerCase :: "char \<Rightarrow> char" where
  "toLowerCase c =
     (let n = (of_char c :: nat) in if 65 \<le> n \<and> n \<le> 90 then char_of (n + 32) else c)"

text \<open>
  \<open>text.match(/#[a-zA-Z0-9_]+/g)\<close>, each match in lower case: a match starts at a
  \<open>#\<close> followed by a character of the class and takes all the characters of the class
  that follow; the search goes on after the match.
\<close>

function extractHashtags :: "string \<Rightarrow> string list" where
  "extractHashtags [] = []"
| "extractHashtags (c # cs) =
     (if c = CHR ''#'' \<and> takeWhile isWordChar cs \<noteq> []
      then map toLowerCase (c # takeWhile isWordChar cs)
             # extractHashtags (dropWhile isWordChar cs)
      else extractHashtags cs)"
  by pat_completeness auto
termination
  by (relation "measure length") (auto simp: length_dropWhile_le less_Suc_eq_le)

record HashtagData =
  hd_hashtag :: string
  hd_totalSats :: nat
  hd_zapCount :: nat
  hd_posts :: "string list"
  hd_firstZapTimes :: "int list"
  hd_contentCreatedTimes :: "int list"

record HashtagPerformance =
  hp_hashtag :: string
  hp_totalSats :: nat
  hp_zapCount :: nat
  hp_avgZapAmount :: int
  hp_postCount :: nat
  hp_successRate :: nat
  hp_avgTimeToFirstZap :: rat

text \<open>\<open>posts.add(id)\<close> on a \<open>Set\<close>, kept as the list of its elements in insertion order.\<close>

definition set_add :: "'a \<Rightarrow> 'a list \<Rightarrow> 'a list" where
  "set_add x xs = (if x \<in> set xs then xs else xs @ [x])"

text \<open>The body of the inner loop: one hashtag of the content of one zap.\<close>

definition hashtagStep ::
  "ParsedZap \<Rightarrow> ZappedEvent \<Rightarrow> (string \<times> HashtagData) list \<Rightarrow> string \<Rightarrow>
   (string \<times> HashtagData) list" where
  "hashtagStep zap zappedEvent' hashtagData hashtag =
     (case map_of hashtagData hashtag of
        Some existing \<Rightarrow>
          AList.update hashtag
            (existing\<lparr>hd_totalSats := hd_totalSats existing + amount zap,
                      hd_zapCount := hd_zapCount existing + 1,
                      hd_posts := set_add (ze_id zappedEvent') (hd_posts existing),
                      hd_firstZapTimes :=
                        hd_firstZapTimes existing @ [ev_created_at (receipt zap)],
                      hd_contentCreatedTimes :=
                        hd_contentCreatedTimes existing @ [ze_created_at zappedEvent']\<rparr>)
            hashtagData
      | None \<Rightarrow>
          AList.update hashtag
            \<lparr>hd_hashtag = hashtag, hd_totalSats = amount zap, hd_zapCount = 1,
             hd_posts = [ze_id zappedEvent'],
             hd_firstZapTimes = [ev_created_at (receipt zap)],
             hd_contentCreatedTimes = [ze_created_at zappedEvent']\<rparr> hashtagData)"

text \<open>
  The body of the outer loop. The map \<open>allPosts\<close> that the source fills here is never
  read, and is left out.
\<close>

definition hashtagZapStep ::
  "(string \<times> HashtagData) list \<Rightarrow> ParsedZap \<Rightarrow> (string \<times> HashtagData) list" where
  "hashtagZapStep hashtagData zap =
     (case zappedEvent zap of
        None \<Rightarrow> hashtagData
      | Some zappedEvent' \<Rightarrow>
          foldl (hashtagStep zap zappedEvent') hashtagData
            (extractHashtags (ze_content zappedEvent')))"

definition hashtagMetrics :: "HashtagData \<Rightarrow> HashtagPerformance" where
  "hashtagMetrics data =
     (let timeToFirstZaps =
            map (\<lambda>(zapTime, created). max 0 (zapTime - created))
              (zip (hd_firstZapTimes data) (hd_contentCreatedTimes data));
          avgTimeToFirstZap =
            (if 0 < length timeToFirstZaps
             then rat_of_int (foldl (\<lambda>sum time. sum + time) 0 timeToFirstZaps)
                    / rat_of_nat (length timeToFirstZaps)
             else 0);
          avgZapAmount' =
            (if 0 < hd_zapCount data
             then Math_round (rat_of_nat (hd_totalSats data) / rat_of_nat (hd_zapCount data))
             else 0)
      in \<lparr>hp_hashtag = hd_hashtag data, hp_totalSats = hd_totalSats data,
          hp_zapCount = hd_zapCount data, hp_avgZapAmount = avgZapAmount',
          hp_postCount = length (hd_posts data), hp_successRate = 100,
          hp_avgTimeToFirstZap = avgTimeToFirstZap\<rparr>)"

definition analyzeHashtagPerformance :: "ParsedZap list \<Rightarrow> HashtagPerformance list" where
  "analyzeHashtagPerformance zaps =
     (let hashtagData = foldl hashtagZapStep [] zaps;
          hashtagPerformance = map (\<lambda>(tag, data). hashtagMetrics data) hashtagData
      in sort_key (\<lambda>h. - int (hp_totalSats h))
           (filter (\<lambda>h. 2 \<le> hp_zapCount h) hashtagPerformance))"

section \<open>Specification-side definitions and example inputs\<close>

text \<open>
  The completion policy in the words of the specification: a preset range is covered
  when an empty batch arrives and the oldest cached receipt has reached the start of the
  window up to the tolerance of one hour, or when a non-empty batch arrives whose oldest
  receipt has; a custom range is covered when an empty batch arrives.
\<close>

definition spec_coverage_complete ::
  "TimeRange \<Rightarrow> int \<Rightarrow> ZapReceipt list \<Rightarrow> ZapReceipt list \<Rightarrow> bool" where
  "spec_coverage_complete timeRange since' cache batch =
     (if timeRange \<noteq> Custom
      then (batch = [] \<and> cache \<noteq> [] \<and> oldestTimestamp cache \<le> since' + 3600) \<or>
           (batch \<noteq> [] \<and> oldestTimestamp batch \<le> since' + 3600)
      else batch = [])"

text \<open>
  Example inputs. The example decoder reads an invoice of \<open>n\<close> characters as \<open>n\<close> sats;
  the example JSON parser rejects every description.
\<close>

definition ex_decode :: Bolt11Decoder where
  "ex_decode bolt11 = Some [(''amount'', Some (1000 * length bolt11))]"

definition ex_json :: JsonParser where
  "ex_json s = None"

definition ex_event :: "string \<Rightarrow> int \<Rightarrow> string \<Rightarrow> NostrEvent" where
  "ex_event i t invoice =
     \<lparr>ev_id = i, ev_created_at = t, ev_pubkey = ''wallet'', ev_kind = 9735,
      ev_tags = [[''bolt11'', invoice]], ev_content = '''', ev_sig = ''''\<rparr>"

definition ex_two_invoices :: NostrEvent where
  "ex_two_invoices =
     \<lparr>ev_id = ''b'', ev_created_at = 100, ev_pubkey = ''wallet'', ev_kind = 9735,
      ev_tags = [[''bolt11'', ''''], [''bolt11'', ''lnbc'']], ev_content = '''',
      ev_sig = ''''\<rparr>"

definition ex_hook :: Hook where
  "ex_hook = \<lparr>state = initialState, isLoadingRef = False, autoLoadTimeout = False,
              userZapCache = Map.empty\<rparr>"

definition ex_clock :: Clock where
  "ex_clock = \<lparr>nowTry = 1000000000, nowUpdate = 1000000000, nowCheck = 1000000000\<rparr>"

text \<open>The hook after one call to which the relay returned one receipt.\<close>

definition ex_loaded :: Hook where
  "ex_loaded =
     loadMoreZaps ex_decode (\<lambda>f. Inr [ex_event ''a'' 900000 ''lnbc'']) ex_clock
       (Some ''alice'') R7d None False ex_hook"

definition ex_post :: "string \<Rightarrow> string \<Rightarrow> int \<Rightarrow> ZappedEvent" where
  "ex_post i body t =
     \<lparr>ze_id = i, ze_kind = 1, ze_author = ''author'', ze_content = body, ze_created_at = t\<rparr>"

text \<open>A zap of \<open>a\<close> sats by \<open>p\<close> at time \<open>t\<close>, on the content \<open>ze\<close> if any.\<close>

definition ex_zap :: "string \<Rightarrow> int \<Rightarrow> nat \<Rightarrow> ZappedEvent option \<Rightarrow> ParsedZap" where
  "ex_zap p t a ze =
     \<lparr>receipt = ex_event p t ''lnbc'', zappedEvent = ze,
      zapper = \<lparr>zp_pubkey = p, zp_name = None, zp_nip05 = None, zp_picture = None\<rparr>,
      amount = a, comment = None, zapRequest = None\<rparr>"

text \<open>A long-form article, and zaps of 2 and 9 sats, and of 1 and 2 sats, on two kinds.\<close>

definition ex_article :: ZappedEvent where
  "ex_article =
     \<lparr>ze_id = ''n9'', ze_kind = 30023, ze_author = ''author'', ze_content = '''',
      ze_created_at = 1000\<rparr>"

definition ex_zaps_2_9 :: "ParsedZap list" where
  "ex_zaps_2_9 =
     [ex_zap ''p1'' 3600 2 (Some (ex_post ''n1'' '''' 1000)),
      ex_zap ''p2'' 3700 9 (Some ex_article)]"

definition ex_zaps_1_2 :: "ParsedZap list" where
  "ex_zaps_1_2 =
     [ex_zap ''p1'' 3600 1 (Some (ex_post ''n1'' '''' 1000)),
      ex_zap ''p2'' 3700 2 (Some ex_article)]"

text \<open>The records of one actor, and the classification in the words of the specification.\<close>

definition zapsOf :: "string \<Rightarrow> ParsedZap list \<Rightarrow> ParsedZap list" where
  "zapsOf p zaps = filter (\<lambda>z. zp_pubkey (zapper z) = p) zaps"

definition spec_category :: "nat \<Rightarrow> nat \<Rightarrow> rat \<Rightarrow> Category" where
  "spec_category records lifetime avgDays =
     (if records = 1 then OneTime
      else if 10000 \<le> lifetime then Whale
      else if 5 \<le> records \<or> (3 \<le> records \<and> avgDays \<le> 7) then Regular
      else Occasional)"

text \<open>The entry of the first loop for an actor, written from the actor's records.\<close>

definition infoOf :: "string \<Rightarrow> ParsedZap list \<Rightarrow> ZapperInfo" where
  "infoOf p zaps =
     \<lparr>zi_pubkey = p, zi_name = zp_name (zapper (hd (zapsOf p zaps))),
      zi_picture = zp_picture (zapper (hd (zapsOf p zaps))),
      zi_zaps = zapsOf p zaps,
      zi_totalSats = sum_list (map amount (zapsOf p zaps)),
      zi_zapCount = length (zapsOf p zaps)\<rparr>"

section \<open>Receipt validation and parsing\<close>

lemma isValid_iff:
  "isValidZapReceipt decode event \<longleftrightarrow>
     ev_kind event = 9735 \<and>
     (\<exists>v. bolt11_value event = Some v \<and> v \<noteq> [] \<and> 0 < parseBolt11Amount decode v)"
  by (cases "find_tag ''bolt11'' (ev_tags event)";
      cases "tag_at (the (find_tag ''bolt11'' (ev_tags event))) 1")
     (auto simp: isValidZapReceipt_def bolt11_value_def)

lemma parse_None_iff:
  "parseZapReceipt decode json event = None \<longleftrightarrow>
     bolt11_value event = None \<or>
     (\<exists>v. bolt11_value event = Some v \<and> parseBolt11Amount decode v = 0)"
  by (cases "find_tag ''bolt11'' (ev_tags event)";
      cases "tag_at (the (find_tag ''bolt11'' (ev_tags event))) 1")
     (auto simp: parseZapReceipt_def bolt11_value_def Let_def)

lemma parse_amount:
  "parseZapReceipt decode json event = Some pz \<Longrightarrow>
     \<exists>v. bolt11_value event = Some v \<and> amount pz = parseBolt11Amount decode v \<and>
         receipt pz = event"
  by (cases "find_tag ''bolt11'' (ev_tags event)";
      cases "tag_at (the (find_tag ''bolt11'' (ev_tags event))) 1")
     (auto simp: parseZapReceipt_def bolt11_value_def Let_def split: if_splits)

lemma find_unique:
  "length (filter P xs) \<le> 1 \<Longrightarrow> t \<in> set xs \<Longrightarrow> P t \<Longrightarrow> find P xs = Some t"
proof (induction xs)
  case Nil
  then show ?case by simp
next
  case (Cons x xs)
  show ?case
  proof (cases "P x")
    case True
    then have "filter P xs = []" using Cons.prems(1) by simp
    then have "\<forall>y\<in>set xs. \<not> P y" by (simp only: filter_empty_conv)
    then have "t \<notin> set xs" using Cons.prems(3) by blast
    then have "t = x" using Cons.prems(2) by simp
    then show ?thesis using True by simp
  next
    case False
    then have "t \<noteq> x" using Cons.prems(3) by blast
    then have mem: "t \<in> set xs" using Cons.prems(2) by simp
    have len: "length (filter P xs) \<le> 1" using Cons.prems(1) False by simp
    have "find P xs = Some t" by (rule Cons.IH[OF len mem Cons.prems(3)])
    then show ?thesis using False by simp
  qed
qed

lemma bolt11_value_Some:
  "bolt11_value event = Some v \<longleftrightarrow>
     (\<exists>t. find_tag ''bolt11'' (ev_tags event) = Some t \<and> tag_at t 1 = Some v \<and> v \<noteq> [])"
proof (cases "find_tag ''bolt11'' (ev_tags event)")
  case None
  then show ?thesis by (simp add: bolt11_value_def)
next
  case f: (Some t)
  show ?thesis
  proof (cases "tag_at t 1")
    case None
    then show ?thesis by (simp add: bolt11_value_def f)
  next
    case (Some w)
    then show ?thesis by (cases "w = []") (auto simp add: bolt11_value_def f)
  qed
qed

lemma find_Some_member: "find P xs = Some t \<Longrightarrow> t \<in> set xs \<and> P t"
  by (induction xs) (simp_all split: if_splits)

lemma find_tag_unique:
  assumes "length (filter (\<lambda>t. tag_at t 0 = Some ''bolt11'') (ev_tags event)) \<le> 1"
  shows "find_tag ''bolt11'' (ev_tags event) = Some t \<longleftrightarrow>
     t \<in> set (ev_tags event) \<and> tag_at t 0 = Some ''bolt11''"
proof
  assume "find_tag ''bolt11'' (ev_tags event) = Some t"
  then have "find (\<lambda>t. tag_at t 0 = Some ''bolt11'') (ev_tags event) = Some t"
    by (simp only: find_tag_def)
  then show "t \<in> set (ev_tags event) \<and> tag_at t 0 = Some ''bolt11''"
    by (rule find_Some_member[where P = "\<lambda>t. tag_at t 0 = Some ''bolt11''"])
next
  assume "t \<in> set (ev_tags event) \<and> tag_at t 0 = Some ''bolt11''"
  then have m: "t \<in> set (ev_tags event)" and p: "tag_at t 0 = Some ''bolt11''" by simp_all
  have "find (\<lambda>t. tag_at t 0 = Some ''bolt11'') (ev_tags event) = Some t"
    by (rule find_unique[where P = "\<lambda>t. tag_at t 0 = Some ''bolt11''" and t = t
          and xs = "ev_tags event", OF assms m p])
  then show "find_tag ''bolt11'' (ev_tags event) = Some t"
    by (simp only: find_tag_def)
qed

lemma isValid_unique:
  assumes "length (filter (\<lambda>t. tag_at t 0 = Some ''bolt11'') (ev_tags event)) \<le> 1"
  shows "isValidZapReceipt decode event \<longleftrightarrow>
      ev_kind event = 9735 \<and>
      (\<exists>t\<in>set (ev_tags event). tag_at t 0 = Some ''bolt11'' \<and>
         (\<exists>v. tag_at t 1 = Some v \<and> v \<noteq> [] \<and> 0 < parseBolt11Amount decode v))"
proof -
  have "(\<exists>v. bolt11_value event = Some v \<and> v \<noteq> [] \<and> 0 < parseBolt11Amount decode v)
      \<longleftrightarrow> (\<exists>t\<in>set (ev_tags event). tag_at t 0 = Some ''bolt11'' \<and>
         (\<exists>v. tag_at t 1 = Some v \<and> v \<noteq> [] \<and> 0 < parseBolt11Amount decode v))"
    (is "?L \<longleftrightarrow> ?R")
  proof
    assume ?L
    then obtain v where v: "bolt11_value event = Some v" "0 < parseBolt11Amount decode v"
      by blast
    from v(1) obtain t where t: "find_tag ''bolt11'' (ev_tags event) = Some t"
        "tag_at t 1 = Some v" "v \<noteq> []"
      unfolding bolt11_value_Some by blast
    from t(1) have m: "t \<in> set (ev_tags event)" "tag_at t 0 = Some ''bolt11''"
      unfolding find_tag_unique[OF assms] by simp_all
    from m t(2,3) v(2) show ?R by blast
  next
    assume ?R
    then obtain t v where r: "t \<in> set (ev_tags event)" "tag_at t 0 = Some ''bolt11''"
        "tag_at t 1 = Some v" "v \<noteq> []" "0 < parseBolt11Amount decode v"
      by blast
    from r(1,2) have "find_tag ''bolt11'' (ev_tags event) = Some t"
      unfolding find_tag_unique[OF assms] by simp
    with r(3,4) have "bolt11_value event = Some v"
      unfolding bolt11_value_Some by blast
    with r(4,5) show ?L by blast
  qed
  then show ?thesis by (simp only: isValid_iff)
qed

lemma find_Some_first:
  "find P xs = Some t \<longleftrightarrow>
     (\<exists>pre post. xs = pre @ t # post \<and> (\<forall>u\<in>set pre. \<not> P u) \<and> P t)"
proof (induction xs)
  case Nil
  then show ?case by simp
next
  case (Cons x xs)
  show ?case
  proof (cases "P x")
    case True
    have "(\<exists>pre post. x # xs = pre @ t # post \<and> (\<forall>u\<in>set pre. \<not> P u) \<and> P t) \<longleftrightarrow> x = t"
    proof
      assume "\<exists>pre post. x # xs = pre @ t # post \<and> (\<forall>u\<in>set pre. \<not> P u) \<and> P t"
      then obtain pre post where d: "x # xs = pre @ t # post" "\<forall>u\<in>set pre. \<not> P u" by blast
      show "x = t"
      proof (cases pre)
        case Nil
        then show ?thesis using d(1) by simp
      next
        case (Cons p ps)
        then have "p = x" using d(1) by simp
        then show ?thesis using d(2) Cons True by simp
      qed
    next
      assume "x = t"
      then have "x # xs = [] @ t # xs \<and> (\<forall>u\<in>set []. \<not> P u) \<and> P t" using True by simp
      then show "\<exists>pre post. x # xs = pre @ t # post \<and> (\<forall>u\<in>set pre. \<not> P u) \<and> P t" by blast
    qed
    then show ?thesis using True by simp
  next
    case False
    have "(\<exists>pre post. x # xs = pre @ t # post \<and> (\<forall>u\<in>set pre. \<not> P u) \<and> P t) \<longleftrightarrow>
          (\<exists>pre post. xs = pre @ t # post \<and> (\<forall>u\<in>set pre. \<not> P u) \<and> P t)"
    proof
      assume "\<exists>pre post. x # xs = pre @ t # post \<and> (\<forall>u\<in>set pre. \<not> P u) \<and> P t"
      then obtain pre post where d: "x # xs = pre @ t # post" "\<forall>u\<in>set pre. \<not> P u" "P t"
        by blast
      show "\<exists>pre post. xs = pre @ t # post \<and> (\<forall>u\<in>set pre. \<not> P u) \<and> P t"
      proof (cases pre)
        case Nil
        then have "x = t" using d(1) by simp
        then show ?thesis using d(3) False by simp
      next
        case (Cons p ps)
        then have "xs = ps @ t # post \<and> (\<forall>u\<in>set ps. \<not> P u) \<and> P t" using d by simp
        then show ?thesis by blast
      qed
    next
      assume "\<exists>pre post. xs = pre @ t # post \<and> (\<forall>u\<in>set pre. \<not> P u) \<and> P t"
      then obtain pre post where d: "xs = pre @ t # post" "\<forall>u\<in>set pre. \<not> P u" "P t"
        by blast
      then have "x # xs = (x # pre) @ t # post \<and> (\<forall>u\<in>set (x # pre). \<not> P u) \<and> P t"
        using False by simp
      then show "\<exists>pre post. x # xs = pre @ t # post \<and> (\<forall>u\<in>set pre. \<not> P u) \<and> P t"
        by blast
    qed
    then show ?thesis using False Cons.IH by simp
  qed
qed

lemma bolt11_value_first:
  "bolt11_value event = Some v \<longleftrightarrow>
     (\<exists>pre t post. ev_tags event = pre @ t # post \<and>
        (\<forall>u\<in>set pre. tag_at u 0 \<noteq> Some ''bolt11'') \<and> tag_at t 0 = Some ''bolt11'' \<and>
        tag_at t 1 = Some v \<and> v \<noteq> [])"
proof -
  have f: "\<And>t. find_tag ''bolt11'' (ev_tags event) = Some t \<longleftrightarrow>
      (\<exists>pre post. ev_tags event = pre @ t # post \<and>
        (\<forall>u\<in>set pre. tag_at u 0 \<noteq> Some ''bolt11'') \<and> tag_at t 0 = Some ''bolt11'')"
    unfolding find_tag_def
    by (rule find_Some_first[where P = "\<lambda>t. tag_at t 0 = Some ''bolt11''"])
  show ?thesis unfolding bolt11_value_Some f by blast
qed

lemma isValid_first:
  "isValidZapReceipt decode event \<longleftrightarrow>
      ev_kind event = 9735 \<and>
      (\<exists>pre t post v. ev_tags event = pre @ t # post \<and>
         (\<forall>u\<in>set pre. tag_at u 0 \<noteq> Some ''bolt11'') \<and> tag_at t 0 = Some ''bolt11'' \<and>
         tag_at t 1 = Some v \<and> v \<noteq> [] \<and> 0 < parseBolt11Amount decode v)"
proof -
  have "(\<exists>v. bolt11_value event = Some v \<and> v \<noteq> [] \<and> 0 < parseBolt11Amount decode v) \<longleftrightarrow>
      (\<exists>pre t post v. ev_tags event = pre @ t # post \<and>
         (\<forall>u\<in>set pre. tag_at u 0 \<noteq> Some ''bolt11'') \<and> tag_at t 0 = Some ''bolt11'' \<and>
         tag_at t 1 = Some v \<and> v \<noteq> [] \<and> 0 < parseBolt11Amount decode v)"
    unfolding bolt11_value_first by blast
  then show ?thesis by (simp only: isValid_iff)
qed

lemma ex_valid: "isValidZapReceipt ex_decode (ex_event i t ''lnbc'')"
  by (simp add: isValidZapReceipt_def ex_event_def ex_decode_def find_tag_def tag_at_def
      parseBolt11Amount_def)

lemma ex_event_sel:
  "ev_created_at (ex_event i t b) = t" "ev_id (ex_event i t b) = i"
  by (simp_all add: ex_event_def)

text \<open>
  Claim C10, as the code has it. Both functions read the first tag named \<open>bolt11\<close>, the
  one \<open>tags.find\<close> returns, and no later tag of that name. The validator accepts an
  event exactly when its kind is 9735, the first tag named \<open>bolt11\<close> has a non-empty
  value, and the amount decoded from that value is positive. For every accepted event the
  parser returns a record whose amount is that decoded amount. The parser returns null
  exactly when there is no tag named \<open>bolt11\<close> or the value of the first one is absent
  or empty, or the amount decoded from it is 0; the failures of the decoder and of
  \<open>JSON.parse\<close> are caught where they occur, so nothing else in the parser throws. For
  an event with at most one tag named \<open>bolt11\<close>, as a zap receipt has, the first tag of
  that name is any tag of that name.
\<close>

theorem validator_accepts_and_parser_returns:
  "(isValidZapReceipt decode event \<longleftrightarrow>
      ev_kind event = 9735 \<and>
      (\<exists>pre t post v. ev_tags event = pre @ t # post \<and>
         (\<forall>u\<in>set pre. tag_at u 0 \<noteq> Some ''bolt11'') \<and> tag_at t 0 = Some ''bolt11'' \<and>
         tag_at t 1 = Some v \<and> v \<noteq> [] \<and> 0 < parseBolt11Amount decode v)) \<and>
   (bolt11_value event = Some w \<longleftrightarrow>
      (\<exists>pre t post. ev_tags event = pre @ t # post \<and>
         (\<forall>u\<in>set pre. tag_at u 0 \<noteq> Some ''bolt11'') \<and> tag_at t 0 = Some ''bolt11'' \<and>
         tag_at t 1 = Some w \<and> w \<noteq> [])) \<and>
   (isValidZapReceipt decode event \<longrightarrow>
      (\<exists>pz v. parseZapReceipt decode json event = Some pz \<and> bolt11_value event = Some v \<and>
         amount pz = parseBolt11Amount decode v \<and> 0 < amount pz)) \<and>
   (parseZapReceipt decode json event = None \<longleftrightarrow>
      bolt11_value event = None \<or>
      (\<exists>v. bolt11_value event = Some v \<and> parseBolt11Amount decode v = 0)) \<and>
   (length (filter (\<lambda>t. tag_at t 0 = Some ''bolt11'') (ev_tags event)) \<le> 1 \<longrightarrow>
      (isValidZapReceipt decode event \<longleftrightarrow>
         ev_kind event = 9735 \<and>
         (\<exists>t\<in>set (ev_tags event). tag_at t 0 = Some ''bolt11'' \<and>
            (\<exists>v. tag_at t 1 = Some v \<and> v \<noteq> [] \<and> 0 < parseBolt11Amount decode v))))"
proof (intro conjI impI)
  show "isValidZapReceipt decode event \<longleftrightarrow>
      ev_kind event = 9735 \<and>
      (\<exists>pre t post v. ev_tags event = pre @ t # post \<and>
         (\<forall>u\<in>set pre. tag_at u 0 \<noteq> Some ''bolt11'') \<and> tag_at t 0 = Some ''bolt11'' \<and>
         tag_at t 1 = Some v \<and> v \<noteq> [] \<and> 0 < parseBolt11Amount decode v)"
    by (rule isValid_first)
next
  show "bolt11_value event = Some w \<longleftrightarrow>
      (\<exists>pre t post. ev_tags event = pre @ t # post \<and>
         (\<forall>u\<in>set pre. tag_at u 0 \<noteq> Some ''bolt11'') \<and> tag_at t 0 = Some ''bolt11'' \<and>
         tag_at t 1 = Some w \<and> w \<noteq> [])"
    by (rule bolt11_value_first)
next
  assume valid: "isValidZapReceipt decode event"
  then obtain v where v: "bolt11_value event = Some v" "0 < parseBolt11Amount decode v"
    unfolding isValid_iff by blast
  then have "parseZapReceipt decode json event \<noteq> None"
    unfolding parse_None_iff by simp
  then obtain pz where pz: "parseZapReceipt decode json event = Some pz" by blast
  from parse_amount[OF pz] v have "amount pz = parseBolt11Amount decode v" by simp
  with pz v show "\<exists>pz v. parseZapReceipt decode json event = Some pz \<and>
      bolt11_value event = Some v \<and> amount pz = parseBolt11Amount decode v \<and> 0 < amount pz"
    by simp
next
  show "parseZapReceipt decode json event = None \<longleftrightarrow>
      bolt11_value event = None \<or>
      (\<exists>v. bolt11_value event = Some v \<and> parseBolt11Amount decode v = 0)"
    by (rule parse_None_iff)
next
  assume "length (filter (\<lambda>t. tag_at t 0 = Some ''bolt11'') (ev_tags event)) \<le> 1"
  then show "isValidZapReceipt decode event \<longleftrightarrow>
         ev_kind event = 9735 \<and>
         (\<exists>t\<in>set (ev_tags event). tag_at t 0 = Some ''bolt11'' \<and>
            (\<exists>v. tag_at t 1 = Some v \<and> v \<noteq> [] \<and> 0 < parseBolt11Amount decode v))"
    by (rule isValid_unique)
qed

theorem validator_accepts_and_parser_returns_witness:
  "isValidZapReceipt ex_decode (ex_event ''a'' 100 ''lnbc'') \<and>
   length (filter (\<lambda>t. tag_at t 0 = Some ''bolt11'') (ev_tags (ex_event ''a'' 100 ''lnbc''))) \<le> 1 \<and>
   (\<exists>pz. parseZapReceipt ex_decode ex_json (ex_event ''a'' 100 ''lnbc'') = Some pz \<and>
      amount pz = 4)"
proof -
  have valid: "isValidZapReceipt ex_decode (ex_event ''a'' 100 ''lnbc'')" by (rule ex_valid)
  have one: "length (filter (\<lambda>t. tag_at t 0 = Some ''bolt11'')
      (ev_tags (ex_event ''a'' 100 ''lnbc''))) \<le> 1"
    by (simp add: ex_event_def)
  have b: "bolt11_value (ex_event ''a'' 100 ''lnbc'') = Some ''lnbc''"
    by (simp add: bolt11_value_def ex_event_def find_tag_def tag_at_def)
  have a: "parseBolt11Amount ex_decode ''lnbc'' = 4"
    by (simp add: parseBolt11Amount_def ex_decode_def)
  have "\<exists>pz v. parseZapReceipt ex_decode ex_json (ex_event ''a'' 100 ''lnbc'') = Some pz \<and>
      bolt11_value (ex_event ''a'' 100 ''lnbc'') = Some v \<and>
      amount pz = parseBolt11Amount ex_decode v \<and> 0 < amount pz"
    by (rule validator_accepts_and_parser_returns
        [where decode = ex_decode and json = ex_json and event = "ex_event ''a'' 100 ''lnbc''"
           and w = "''lnbc''",
         THEN conjunct2, THEN conjunct2, THEN conjunct1, THEN mp, OF valid])
  then obtain pz v where
      pz: "parseZapReceipt ex_decode ex_json (ex_event ''a'' 100 ''lnbc'') = Some pz"
      and v: "bolt11_value (ex_event ''a'' 100 ''lnbc'') = Some v"
      and am: "amount pz = parseBolt11Amount ex_decode v"
    by blast
  from v b have "v = ''lnbc''" by simp
  with am a have "amount pz = 4" by simp
  with pz valid one show ?thesis by blast
qed

text \<open>
  The claim as it was written speaks of a bolt11 tag of the event. An event of kind 9735
  whose first \<open>bolt11\<close> tag has an empty value and whose second \<open>bolt11\<close> tag holds an
  invoice of 4 sats has a bolt11 tag with a non-empty value and a positive decoded amount;
  the validator rejects it and the parser returns null.
\<close>

theorem first_bolt11_tag_decides:
  "ev_kind ex_two_invoices = 9735 \<and>
   [''bolt11'', ''lnbc''] \<in> set (ev_tags ex_two_invoices) \<and>
   tag_at [''bolt11'', ''lnbc''] 0 = Some ''bolt11'' \<and>
   tag_at [''bolt11'', ''lnbc''] 1 = Some ''lnbc'' \<and>
   0 < parseBolt11Amount ex_decode ''lnbc'' \<and>
   \<not> isValidZapReceipt ex_decode ex_two_invoices \<and>
   parseZapReceipt ex_decode ex_json ex_two_invoices = None"
  by (simp add: ex_two_invoices_def isValidZapReceipt_def parseZapReceipt_def find_tag_def
      tag_at_def parseBolt11Amount_def ex_decode_def)

section \<open>Completion detection\<close>

lemma floor_gap:
  assumes "(s::int) < n div 1000"
  shows "s * 1000 < n"
proof -
  define q where "q = n div 1000"
  have "q * 1000 = n - n mod 1000" by (simp add: q_def minus_mod_eq_div_mult)
  moreover have "0 \<le> n mod 1000" by simp
  moreover have "s + 1 \<le> q" using assms by (simp add: q_def)
  ultimately show ?thesis by linarith
qed

lemma preset_days:
  "timeRange \<noteq> Custom \<Longrightarrow> \<exists>d. days (TIME_RANGES timeRange) = Some d \<and> 1 \<le> d"
  by (cases timeRange) auto

text \<open>The start of a preset window lies at least 23 hours before its clock reading.\<close>

lemma preset_since:
  assumes "timeRange \<noteq> Custom"
  shows "since (getDateRange nowMs timeRange customRange) + 3600 < nowMs div 1000"
proof -
  obtain d where d: "days (TIME_RANGES timeRange) = Some d" "1 \<le> d"
    using preset_days[OF assms] by blast
  have "int d * 24 * 60 * 60 \<ge> 86400" using d(2) by simp
  then show ?thesis using assms d by (simp add: getDateRange_def Let_def)
qed

text \<open>
  With an empty cache the check compares the present time with the start of the window:
  for a preset window, and a clock that does not run backwards, it never succeeds.
\<close>

lemma empty_cache_not_reached:
  assumes "timeRange \<noteq> Custom" "nowU \<le> nowC"
  shows "\<not> rat_of_int nowC / 1000
           \<le> rat_of_int (since (getDateRange nowU timeRange customRange) + 3600)"
proof -
  let ?s = "since (getDateRange nowU timeRange customRange) + 3600"
  have "?s < nowU div 1000" using preset_since[OF assms(1)] .
  then have "?s * 1000 < nowU" by (rule floor_gap)
  then have "?s * 1000 < nowC" using assms(2) by linarith
  then have "rat_of_int (?s * 1000) < rat_of_int nowC" by (simp only: of_int_less_iff)
  then have "rat_of_int ?s < rat_of_int nowC / 1000" by (simp add: field_simps)
  then show ?thesis by linarith
qed

lemma completionCheck_spec:
  assumes "nowU \<le> nowC"
  shows "completionCheck nowC timeRange (since (getDateRange nowU timeRange customRange)) st batch
     = spec_coverage_complete timeRange (since (getDateRange nowU timeRange customRange))
         (allReceiptsCache st) batch"
  using empty_cache_not_reached[OF _ assms, of timeRange customRange]
  by (auto simp: completionCheck_def spec_coverage_complete_def BOUNDARY_TOLERANCE_SECONDS_def
      Let_def)

text \<open>
  Claim C1. When a call of \<open>loadMoreZaps\<close> passes its guards and the query returns a
  batch, the state it leaves marks the window complete exactly when the completion policy
  holds of the start of the window, the cache the call started from and the valid receipts
  of the batch: for a preset range, the batch has no valid receipt and the oldest cached
  receipt is no later than one hour after the start of the window, or the batch has valid
  receipts and the oldest of them is no later than one hour after the start; for a custom
  range, the batch has no valid receipt. The code tells the two kinds of range apart by
  the name of the range. With an empty cache it compares the present time in place of the
  oldest cached receipt, which never reaches the start of a preset window as long as the
  clock does not run backwards between its two readings inside the state update.
\<close>

theorem fetch_marks_complete_iff_policy:
  assumes "canLoad userPubkey isAutomatic h"
    and "query (requestFilter clock userPubkey timeRange customRange isAutomatic h) = Inr events"
    and "nowUpdate clock \<le> nowCheck clock"
  shows "isComplete (state (loadMoreZaps decode query clock userPubkey timeRange customRange
            isAutomatic h))
     \<longleftrightarrow> spec_coverage_complete timeRange
           (since (getDateRange (nowUpdate clock) timeRange customRange))
           (allReceiptsCache (state h)) (sortDesc (filter (isValidZapReceipt decode) events))"
  using assms(1,2)
  by (simp add: loadMoreZaps_def fetchSucceeded_def Let_def completionCheck_spec[OF assms(3)])

text \<open>
  A seven-day window starting at 395200: a first batch reaching down to 397000, half an
  hour after the start, completes the window without a further empty batch.
\<close>

theorem fetch_marks_complete_iff_policy_witness:
  "isComplete (state (loadMoreZaps ex_decode (\<lambda>f. Inr [ex_event ''a'' 397000 ''lnbc''])
      ex_clock (Some ''alice'') R7d None True ex_hook))"
proof -
  have c: "canLoad (Some ''alice'') True ex_hook"
    by (simp add: canLoad_def ex_hook_def initialState_def MAX_CONSECUTIVE_FAILURES_def)
  have t: "nowUpdate ex_clock \<le> nowCheck ex_clock" by (simp add: ex_clock_def)
  show ?thesis
    using fetch_marks_complete_iff_policy[of "Some ''alice''" True ex_hook
        "\<lambda>f. Inr [ex_event ''a'' 397000 ''lnbc'']" ex_clock R7d None
        "[ex_event ''a'' 397000 ''lnbc'']" ex_decode, OF c _ t]
    by (simp add: spec_coverage_complete_def ex_valid sortDesc_def oldestTimestamp_def
        getDateRange_def ex_clock_def ex_event_sel)
qed

section \<open>Merging a batch into the record store\<close>

lemma mset_mergeReceipts: "mset (mergeReceipts cache batch) = mset cache + mset batch"
  by (simp add: mergeReceipts_def sortDesc_def)

lemma length_mergeReceipts:
  "length (mergeReceipts cache batch) = length cache + length batch"
proof -
  have "size (mset (mergeReceipts cache batch)) = size (mset cache + mset batch)"
    by (simp only: mset_mergeReceipts)
  then show ?thesis by simp
qed

lemma distinct_mergeReceipts:
  "distinct (map ev_id (mergeReceipts cache batch)) \<longleftrightarrow>
     distinct (map ev_id cache) \<and> distinct (map ev_id batch) \<and>
     set (map ev_id cache) \<inter> set (map ev_id batch) = {}"
proof -
  have "mset (map ev_id (mergeReceipts cache batch)) = mset (map ev_id cache @ map ev_id batch)"
    by (simp add: mset_mergeReceipts)
  then have "distinct (map ev_id (mergeReceipts cache batch))
      \<longleftrightarrow> distinct (map ev_id cache @ map ev_id batch)"
    by (rule mset_eq_imp_distinct_iff)
  then show ?thesis by (simp only: distinct_append)
qed

lemma sorted_mergeReceipts:
  "sorted (map (\<lambda>r. - ev_created_at r) (mergeReceipts cache batch))"
  by (simp add: mergeReceipts_def sortDesc_def)

lemma mergeReceipts_empty:
  "sorted (map (\<lambda>r. - ev_created_at r) cache) \<Longrightarrow> mergeReceipts cache [] = cache"
  by (simp add: mergeReceipts_def sortDesc_def sort_key_id_if_sorted)

lemma load_merges:
  assumes "canLoad userPubkey isAutomatic h"
    and "query (requestFilter clock userPubkey timeRange customRange isAutomatic h) = Inr events"
  shows "allReceiptsCache (state (loadMoreZaps decode query clock userPubkey timeRange
            customRange isAutomatic h))
     = mergeReceipts (allReceiptsCache (state h))
         (sortDesc (filter (isValidZapReceipt decode) events))"
    and "userZapCache (loadMoreZaps decode query clock userPubkey timeRange customRange
            isAutomatic h) (the userPubkey)
     = Some (mergeReceipts (allReceiptsCache (state h))
         (sortDesc (filter (isValidZapReceipt decode) events)))"
  using assms by (simp_all add: loadMoreZaps_def Let_def fetchSucceeded_def)

lemma load_others:
  assumes "canLoad userPubkey isAutomatic h"
    and "query (requestFilter clock userPubkey timeRange customRange isAutomatic h) = Inr events"
    and "q \<noteq> the userPubkey"
  shows "userZapCache (loadMoreZaps decode query clock userPubkey timeRange customRange
            isAutomatic h) q = userZapCache h q"
  using assms by (simp add: loadMoreZaps_def Let_def)

lemma initialize_copies:
  "userPubkey \<noteq> None \<Longrightarrow>
     allReceiptsCache (state (initializeFromCache nowMs userPubkey timeRange customRange h))
       = (case userZapCache h (the userPubkey) of None \<Rightarrow> [] | Some c \<Rightarrow> c)"
  by (cases userPubkey) (simp_all add: initializeFromCache_def Let_def)

lemma initialize_keeps:
  "userZapCache (initializeFromCache nowMs userPubkey timeRange customRange h) = userZapCache h"
  by (simp add: initializeFromCache_def Let_def)

lemma userChanged_resets:
  "allReceiptsCache (state (userChanged nowMs userPubkey timeRange customRange h)) = []"
  "userZapCache (userChanged nowMs userPubkey timeRange customRange h) = userZapCache h"
  by (simp_all add: userChanged_def resetOnUserChange_def initialState_def initialize_keeps)

lemma ex_canLoad: "canLoad (Some ''alice'') isAutomatic ex_hook"
  by (simp add: canLoad_def ex_hook_def initialState_def MAX_CONSECUTIVE_FAILURES_def)

lemma ex_loaded_sel:
  "allReceiptsCache (state ex_loaded) = [ex_event ''a'' 900000 ''lnbc'']"
  "userZapCache ex_loaded ''alice'' = Some [ex_event ''a'' 900000 ''lnbc'']"
  "canLoad (Some ''alice'') False ex_loaded"
  by (simp_all add: ex_loaded_def loadMoreZaps_def canLoad_def ex_hook_def initialState_def
      Let_def fetchSucceeded_def completionCheck_def getDateRange_def ex_clock_def ex_valid
      mergeReceipts_def sortDesc_def oldestTimestamp_def ex_event_sel
      BOUNDARY_TOLERANCE_SECONDS_def MAX_CONSECUTIVE_FAILURES_def)

text \<open>
  Claim C2, as the code has it. The hook keeps a copy of the user's records in its state
  (\<open>allReceiptsCache\<close>), and the module-level cache (\<open>userZapCache\<close>) has one entry per
  user. The merge of a batch is the concatenation of the hook's copy and the valid receipts
  of the batch, sorted again by time, newest first; no id is compared. After a call of
  \<open>loadMoreZaps\<close> whose query returned, the hook's copy is that list, the entry of the user
  in the module-level cache is replaced by that list, whatever it held, and the entries of
  the other users are as they were. The list contains the records of the hook's copy and
  of the batch with their multiplicities, so its length is the sum of the two lengths and
  the copy never shrinks by a merge; it is sorted; an empty batch leaves a sorted copy as
  it was; and it is free of duplicate ids exactly when the copy was, the batch is, and no
  id of the batch was in the copy already. The entry of the user grows by the batch when
  the hook's copy is equal to it, as it is after the effect that follows a change of the
  time range; after a mount or a change of the user the copy is empty, whatever the entry
  holds, and the entry is untouched until the next merge replaces it.
\<close>

theorem merge_appends_and_sorts:
  fixes decode query clock userPubkey timeRange customRange isAutomatic h events nowMs
    timeRange0 customRange0 h0
  defines "h' \<equiv> loadMoreZaps decode query clock userPubkey timeRange customRange isAutomatic h"
    and "cache \<equiv> allReceiptsCache (state h)"
    and "batch \<equiv> sortDesc (filter (isValidZapReceipt decode) events)"
  assumes "canLoad userPubkey isAutomatic h"
    and "query (requestFilter clock userPubkey timeRange customRange isAutomatic h) = Inr events"
  shows "allReceiptsCache (state h') = mergeReceipts cache batch \<and>
         userZapCache h' (the userPubkey) = Some (mergeReceipts cache batch) \<and>
         (\<forall>q. q \<noteq> the userPubkey \<longrightarrow> userZapCache h' q = userZapCache h q) \<and>
         mset (mergeReceipts cache batch) = mset cache + mset batch \<and>
         length (mergeReceipts cache batch) = length cache + length batch \<and>
         length cache \<le> length (mergeReceipts cache batch) \<and>
         sorted (map (\<lambda>r. - ev_created_at r) (mergeReceipts cache batch)) \<and>
         (sorted (map (\<lambda>r. - ev_created_at r) cache) \<longrightarrow> mergeReceipts cache [] = cache) \<and>
         (distinct (map ev_id (mergeReceipts cache batch)) \<longleftrightarrow>
            distinct (map ev_id cache) \<and> distinct (map ev_id batch) \<and>
            set (map ev_id cache) \<inter> set (map ev_id batch) = {}) \<and>
         (userZapCache h (the userPubkey) = Some cache \<longrightarrow>
            mset (the (userZapCache h' (the userPubkey)))
              = mset (the (userZapCache h (the userPubkey))) + mset batch) \<and>
         allReceiptsCache (state (initializeFromCache nowMs userPubkey timeRange0 customRange0 h0))
           = (case userZapCache h0 (the userPubkey) of None \<Rightarrow> [] | Some c \<Rightarrow> c) \<and>
         userZapCache (initializeFromCache nowMs userPubkey timeRange0 customRange0 h0)
           = userZapCache h0 \<and>
         allReceiptsCache (state (userChanged nowMs userPubkey timeRange0 customRange0 h0)) = [] \<and>
         userZapCache (userChanged nowMs userPubkey timeRange0 customRange0 h0) = userZapCache h0"
proof -
  have a: "allReceiptsCache (state h') = mergeReceipts cache batch"
    unfolding h'_def cache_def batch_def using assms(4,5) by (rule load_merges(1))
  have b: "userZapCache h' (the userPubkey) = Some (mergeReceipts cache batch)"
    unfolding h'_def cache_def batch_def using assms(4,5) by (rule load_merges(2))
  have o: "\<forall>q. q \<noteq> the userPubkey \<longrightarrow> userZapCache h' q = userZapCache h q"
    unfolding h'_def using assms(4,5) by (simp add: loadMoreZaps_def Let_def)
  have c: "length cache \<le> length (mergeReceipts cache batch)"
    by (simp add: length_mergeReceipts)
  have g: "userZapCache h (the userPubkey) = Some cache \<longrightarrow>
      mset (the (userZapCache h' (the userPubkey)))
        = mset (the (userZapCache h (the userPubkey))) + mset batch"
    by (simp add: b mset_mergeReceipts)
  have u: "userPubkey \<noteq> None" using assms(4) by (auto simp: canLoad_def split: if_splits)
  have i: "allReceiptsCache (state (initializeFromCache nowMs userPubkey timeRange0 customRange0 h0))
      = (case userZapCache h0 (the userPubkey) of None \<Rightarrow> [] | Some c \<Rightarrow> c)"
    using u by (rule initialize_copies)
  have e: "sorted (map (\<lambda>r. - ev_created_at r) cache) \<longrightarrow> mergeReceipts cache [] = cache"
    using mergeReceipts_empty by blast
  show ?thesis
    by (rule conjI[OF a conjI[OF b conjI[OF o conjI[OF mset_mergeReceipts
          conjI[OF length_mergeReceipts conjI[OF c conjI[OF sorted_mergeReceipts
          conjI[OF e conjI[OF distinct_mergeReceipts conjI[OF g conjI[OF i
          conjI[OF initialize_keeps conjI[OF userChanged_resets(1)
          userChanged_resets(2)]]]]]]]]]]]]])
qed

text \<open>A second receipt is merged into a store that holds one.\<close>

theorem merge_appends_and_sorts_witness:
  "canLoad (Some ''alice'') False ex_loaded \<and>
   allReceiptsCache (state ex_loaded) = [ex_event ''a'' 900000 ''lnbc''] \<and>
   allReceiptsCache (state (loadMoreZaps ex_decode (\<lambda>f. Inr [ex_event ''b'' 800000 ''lnbc''])
      ex_clock (Some ''alice'') R7d None False ex_loaded))
     = [ex_event ''a'' 900000 ''lnbc'', ex_event ''b'' 800000 ''lnbc''] \<and>
   userZapCache (loadMoreZaps ex_decode (\<lambda>f. Inr [ex_event ''b'' 800000 ''lnbc''])
      ex_clock (Some ''alice'') R7d None False ex_loaded) ''alice''
     = Some [ex_event ''a'' 900000 ''lnbc'', ex_event ''b'' 800000 ''lnbc'']"
  using merge_appends_and_sorts[where userPubkey = "Some ''alice''" and isAutomatic = False
      and h = ex_loaded and query = "\<lambda>f. Inr [ex_event ''b'' 800000 ''lnbc'']"
      and clock = ex_clock and timeRange = R7d and customRange = None
      and events = "[ex_event ''b'' 800000 ''lnbc'']" and decode = ex_decode,
      OF ex_loaded_sel(3)]
  by (simp add: ex_loaded_sel ex_valid mergeReceipts_def sortDesc_def ex_event_sel)

text \<open>
  The claim as stated fails: when the relay returns a receipt that the store holds
  already, the store holds it twice afterwards. Two calls in a row against a relay that
  answers every query with the same receipt leave two records with the id \<open>a\<close>, where
  one call leaves one. And the count of the user's entry in the module-level cache can go
  down: after one receipt is loaded the user changes and comes back (or the component is
  mounted again); the next call, to which the relay returns no receipt, replaces the entry
  that held one record by the empty list.
\<close>

theorem merge_twice_duplicates:
  "allReceiptsCache (state (loadMoreZaps ex_decode (\<lambda>f. Inr [ex_event ''a'' 900000 ''lnbc''])
      ex_clock (Some ''alice'') R7d None False ex_hook)) = [ex_event ''a'' 900000 ''lnbc''] \<and>
   allReceiptsCache (state (loadMoreZaps ex_decode (\<lambda>f. Inr [ex_event ''a'' 900000 ''lnbc''])
      ex_clock (Some ''alice'') R7d None False
      (loadMoreZaps ex_decode (\<lambda>f. Inr [ex_event ''a'' 900000 ''lnbc''])
         ex_clock (Some ''alice'') R7d None False ex_hook)))
     = [ex_event ''a'' 900000 ''lnbc'', ex_event ''a'' 900000 ''lnbc''] \<and>
   userZapCache ex_loaded ''alice'' = Some [ex_event ''a'' 900000 ''lnbc''] \<and>
   userZapCache (userChanged 1000000000 (Some ''alice'') R7d None ex_loaded) ''alice''
     = Some [ex_event ''a'' 900000 ''lnbc''] \<and>
   userZapCache (loadMoreZaps ex_decode (\<lambda>f. Inr []) ex_clock (Some ''alice'') R7d None False
      (userChanged 1000000000 (Some ''alice'') R7d None ex_loaded)) ''alice'' = Some []"
  by (simp add: loadMoreZaps_def canLoad_def ex_hook_def initialState_def Let_def
      fetchSucceeded_def completionCheck_def getDateRange_def ex_clock_def ex_valid
      mergeReceipts_def sortDesc_def oldestTimestamp_def ex_event_sel
      BOUNDARY_TOLERANCE_SECONDS_def MAX_CONSECUTIVE_FAILURES_def
      ex_loaded_def userChanged_def resetOnUserChange_def initializeFromCache_def)

section \<open>Batch size and the detected relay limit\<close>

lemma batchSize_eq:
  "batchSize st isAutomatic =
     (if relayLimit st = None \<or> relayLimit st = Some 0
      then (if isAutomatic \<and> 0 < currentBatch st then 250 else 1000)
      else min (the (relayLimit st)) 2000)"
  by (cases "relayLimit st")
     (auto simp: batchSize_def Let_def INITIAL_BATCH_SIZE_def MIN_BATCH_SIZE_def
        MAX_BATCH_SIZE_def)

lemma limit_requestFilter:
  "flt_limit (requestFilter clock userPubkey timeRange customRange isAutomatic h)
     = batchSize (state h) isAutomatic"
  by (simp add: requestFilter_def buildFilter_def Let_def)

lemma batchSize_le: "batchSize st a \<le> 2000"
  by (simp add: batchSize_eq)

text \<open>
  Claim C5, as the code has it. With \<open>received\<close> the number of valid receipts of the
  batch and \<open>requested\<close> the limit of the request: the detected limit becomes
  \<open>max received 250\<close> exactly when the page is short and not empty
  (\<open>0 < received < requested\<close>), and is left as it was otherwise, also after an empty
  page. The limit of a request is the detected limit capped at 2000 when one is set;
  without one it is 1000, or 250 for an automatic batch after the first. After a short,
  non-empty page every next request, manual or automatic, asks for exactly the detected
  limit.
\<close>

theorem detected_limit_and_batch_size:
  fixes decode query clock userPubkey timeRange customRange isAutomatic h events
  defines "h' \<equiv> loadMoreZaps decode query clock userPubkey timeRange customRange isAutomatic h"
    and "received \<equiv> length (filter (isValidZapReceipt decode) events)"
    and "requested \<equiv>
           flt_limit (requestFilter clock userPubkey timeRange customRange isAutomatic h)"
  assumes "canLoad userPubkey isAutomatic h"
    and "query (requestFilter clock userPubkey timeRange customRange isAutomatic h) = Inr events"
  shows "relayLimit (state h') =
           (if 0 < received \<and> received < requested then Some (max received 250)
            else relayLimit (state h)) \<and>
         requested =
           (if relayLimit (state h) = None \<or> relayLimit (state h) = Some 0
            then (if isAutomatic \<and> 0 < currentBatch (state h) then 250 else 1000)
            else min (the (relayLimit (state h))) 2000) \<and>
         (0 < received \<and> received < requested \<longrightarrow>
            (\<forall>clock' timeRange' customRange' isAutomatic'.
               flt_limit (requestFilter clock' userPubkey timeRange' customRange' isAutomatic' h')
                 = max received 250))"
proof -
  have st: "state h' = fetchSucceeded clock timeRange customRange (state h) requested
       (sortDesc (filter (isValidZapReceipt decode) events))
       ((state h)\<lparr>isLoading := True, error := None\<rparr>)"
    using assms(4,5)
    by (simp add: h'_def requested_def limit_requestFilter loadMoreZaps_def Let_def)
  have len: "length (sortDesc (filter (isValidZapReceipt decode) events)) = received"
    by (simp add: sortDesc_def received_def)
  have rl: "relayLimit (state h') = detectLimit received requested (relayLimit (state h))"
    by (simp add: st fetchSucceeded_def Let_def len)
  have le: "requested \<le> 2000"
    by (simp add: requested_def limit_requestFilter batchSize_le)
  have req: "requested =
           (if relayLimit (state h) = None \<or> relayLimit (state h) = Some 0
            then (if isAutomatic \<and> 0 < currentBatch (state h) then 250 else 1000)
            else min (the (relayLimit (state h))) 2000)"
    unfolding requested_def limit_requestFilter by (rule batchSize_eq)
  have r1: "relayLimit (state h') =
           (if 0 < received \<and> received < requested then Some (max received 250)
            else relayLimit (state h))"
    by (simp add: rl detectLimit_def MIN_BATCH_SIZE_def)
  have r3: "flt_limit (requestFilter clock' userPubkey timeRange' customRange' isAutomatic' h')
                 = max received 250"
    if "0 < received \<and> received < requested" for clock' timeRange' customRange' isAutomatic'
  proof -
    have "relayLimit (state h') = Some (max received 250)" using that r1 by simp
    moreover have "max received 250 \<le> 2000" using that le by simp
    ultimately show ?thesis by (simp add: limit_requestFilter batchSize_eq)
  qed
  from r1 req r3 show ?thesis by blast
qed

text \<open>A first manual batch of one receipt, 1000 requested: the limit becomes 250.\<close>

theorem detected_limit_and_batch_size_witness:
  "relayLimit (state (loadMoreZaps ex_decode (\<lambda>f. Inr [ex_event ''a'' 900000 ''lnbc''])
      ex_clock (Some ''alice'') R7d None False ex_hook)) = Some 250 \<and>
   flt_limit (requestFilter ex_clock (Some ''alice'') R7d None True
      (loadMoreZaps ex_decode (\<lambda>f. Inr [ex_event ''a'' 900000 ''lnbc''])
         ex_clock (Some ''alice'') R7d None False ex_hook)) = 250"
proof -
  have r: "flt_limit (requestFilter ex_clock (Some ''alice'') R7d None False ex_hook) = 1000"
    by (simp add: limit_requestFilter batchSize_eq ex_hook_def initialState_def)
  show ?thesis
    using detected_limit_and_batch_size[where userPubkey = "Some ''alice''"
        and isAutomatic = False and h = ex_hook
        and query = "\<lambda>f. Inr [ex_event ''a'' 900000 ''lnbc'']" and clock = ex_clock
        and timeRange = R7d and customRange = None
        and events = "[ex_event ''a'' 900000 ''lnbc'']" and decode = ex_decode, OF ex_canLoad]
    by (simp add: r ex_valid)
qed

text \<open>
  The claim as stated fails twice. An empty page is short (0 of 1000 requested), and the
  detected limit stays unset instead of becoming \<open>max 0 250 = 250\<close>. With a detected
  limit of 500, an automatic batch after the first asks for 500, not for
  \<open>min 500 250 = 250\<close>.
\<close>

theorem short_empty_page_and_auto_clamp:
  "relayLimit (state (loadMoreZaps ex_decode (\<lambda>f. Inr []) ex_clock (Some ''alice'') R7d None
      False ex_hook)) = None \<and>
   batchSize (initialState\<lparr>relayLimit := Some 500, currentBatch := 1\<rparr>) True = 500"
  by (simp add: loadMoreZaps_def canLoad_def ex_hook_def initialState_def Let_def
      fetchSucceeded_def detectLimit_def batchSize_def sortDesc_def INITIAL_BATCH_SIZE_def
      MIN_BATCH_SIZE_def MAX_BATCH_SIZE_def MAX_CONSECUTIVE_FAILURES_def)

section \<open>Failures and the failure counter\<close>

lemma load_failed:
  assumes "canLoad userPubkey isAutomatic h"
    and "query (requestFilter clock userPubkey timeRange customRange isAutomatic h) = Inl message"
  shows "loadMoreZaps decode query clock userPubkey timeRange customRange isAutomatic h
     = h\<lparr>state := fetchFailed message ((state h)\<lparr>isLoading := True, error := None\<rparr>),
         isLoadingRef := False\<rparr>"
  using assms by (simp add: loadMoreZaps_def Let_def)

lemma load_succeeded:
  assumes "canLoad userPubkey isAutomatic h"
    and "query (requestFilter clock userPubkey timeRange customRange isAutomatic h) = Inr events"
  shows "state (loadMoreZaps decode query clock userPubkey timeRange customRange isAutomatic h)
     = fetchSucceeded clock timeRange customRange (state h) (batchSize (state h) isAutomatic)
         (sortDesc (filter (isValidZapReceipt decode) events))
         ((state h)\<lparr>isLoading := True, error := None\<rparr>)"
  using assms by (simp add: loadMoreZaps_def Let_def)

lemma load_refused:
  "\<not> canLoad userPubkey isAutomatic h \<Longrightarrow>
     loadMoreZaps decode query clock userPubkey timeRange customRange isAutomatic h = h"
  by (simp add: loadMoreZaps_def)

lemma canLoad_manual:
  "canLoad userPubkey False h \<longleftrightarrow> userPubkey \<noteq> None \<and> \<not> isLoadingRef h \<and> \<not> isComplete (state h)"
  by (simp add: canLoad_def)

lemma canLoad_auto:
  "canLoad userPubkey True h \<longleftrightarrow>
     userPubkey \<noteq> None \<and> \<not> isLoadingRef h \<and> \<not> isComplete (state h) \<and>
     autoLoadEnabled (state h) \<and> consecutiveFailures (state h) < 3"
  by (auto simp: canLoad_def MAX_CONSECUTIVE_FAILURES_def)

lemma canLoad_imp_manual: "canLoad userPubkey isAutomatic h \<Longrightarrow> canLoad userPubkey False h"
  by (cases isAutomatic) (simp_all add: canLoad_manual canLoad_auto)

text \<open>
  Claim C6. A call of \<open>loadMoreZaps\<close> that passes its guards and whose query throws
  adds one to the failure counter and leaves the store of the state and the module-level
  cache as they were; automatic loading stays enabled exactly while the counter is below 3;
  once the counter has reached 3 an automatic call is refused and changes nothing, while a
  manual call still passes the guards. A call whose query returns sets the counter to 0
  and adds one to the batch count.
\<close>

theorem failure_counts_success_resets:
  fixes decode query clock userPubkey timeRange customRange isAutomatic h
  defines "h' \<equiv> loadMoreZaps decode query clock userPubkey timeRange customRange isAutomatic h"
  assumes "canLoad userPubkey isAutomatic h"
  shows "(\<forall>message.
            query (requestFilter clock userPubkey timeRange customRange isAutomatic h)
              = Inl message \<longrightarrow>
            consecutiveFailures (state h') = consecutiveFailures (state h) + 1 \<and>
            allReceiptsCache (state h') = allReceiptsCache (state h) \<and>
            userZapCache h' = userZapCache h \<and>
            (autoLoadEnabled (state h') \<longleftrightarrow> consecutiveFailures (state h') < 3) \<and>
            (3 \<le> consecutiveFailures (state h') \<longrightarrow>
               \<not> canLoad userPubkey True h' \<and>
               loadMoreZaps decode query clock userPubkey timeRange customRange True h' = h') \<and>
            canLoad userPubkey False h') \<and>
         (\<forall>events.
            query (requestFilter clock userPubkey timeRange customRange isAutomatic h)
              = Inr events \<longrightarrow>
            consecutiveFailures (state h') = 0 \<and>
            currentBatch (state h') = currentBatch (state h) + 1)"
proof (intro conjI allI impI)
  fix events
  assume q: "query (requestFilter clock userPubkey timeRange customRange isAutomatic h) = Inr events"
  note st = load_succeeded[where query = query, OF assms(2) q]
  show "consecutiveFailures (state h') = 0"
    unfolding h'_def st by (simp add: fetchSucceeded_def Let_def)
  show "currentBatch (state h') = currentBatch (state h) + 1"
    unfolding h'_def st by (simp add: fetchSucceeded_def Let_def)
next
  fix message
  assume q: "query (requestFilter clock userPubkey timeRange customRange isAutomatic h) = Inl message"
  have eq: "h' = h\<lparr>state := fetchFailed message ((state h)\<lparr>isLoading := True, error := None\<rparr>),
         isLoadingRef := False\<rparr>"
    unfolding h'_def by (rule load_failed[where query = query, OF assms(2) q])
  have m: "canLoad userPubkey False h" using assms(2) by (rule canLoad_imp_manual)
  show "consecutiveFailures (state h') = consecutiveFailures (state h) + 1"
    by (simp add: eq fetchFailed_def)
  show "allReceiptsCache (state h') = allReceiptsCache (state h)"
    by (simp add: eq fetchFailed_def)
  show "userZapCache h' = userZapCache h"
    by (simp add: eq)
  show "autoLoadEnabled (state h') \<longleftrightarrow> consecutiveFailures (state h') < 3"
    by (simp add: eq fetchFailed_def MAX_CONSECUTIVE_FAILURES_def)
  show "canLoad userPubkey False h'"
    using m by (simp add: canLoad_manual eq fetchFailed_def)
  assume three: "3 \<le> consecutiveFailures (state h')"
  then show no: "\<not> canLoad userPubkey True h'"
    by (simp add: canLoad_auto)
  then show "loadMoreZaps decode query clock userPubkey timeRange customRange True h' = h'"
    by (rule load_refused)
qed

text \<open>The third failure in a row: automatic loading stops, manual loading is open.\<close>

theorem failure_counts_success_resets_witness:
  "consecutiveFailures (state (loadMoreZaps ex_decode (\<lambda>f. Inl ''timeout'') ex_clock
      (Some ''alice'') R7d None True
      (ex_hook\<lparr>state := initialState\<lparr>consecutiveFailures := 2\<rparr>\<rparr>))) = 3 \<and>
   \<not> autoLoadEnabled (state (loadMoreZaps ex_decode (\<lambda>f. Inl ''timeout'') ex_clock
      (Some ''alice'') R7d None True
      (ex_hook\<lparr>state := initialState\<lparr>consecutiveFailures := 2\<rparr>\<rparr>))) \<and>
   canLoad (Some ''alice'') False (loadMoreZaps ex_decode (\<lambda>f. Inl ''timeout'') ex_clock
      (Some ''alice'') R7d None True
      (ex_hook\<lparr>state := initialState\<lparr>consecutiveFailures := 2\<rparr>\<rparr>))"
proof -
  have c: "canLoad (Some ''alice'') True
      (ex_hook\<lparr>state := initialState\<lparr>consecutiveFailures := 2\<rparr>\<rparr>)"
    by (simp add: canLoad_def ex_hook_def initialState_def MAX_CONSECUTIVE_FAILURES_def)
  show ?thesis
    using failure_counts_success_resets[where userPubkey = "Some ''alice''"
       and isAutomatic = True
       and h = "ex_hook\<lparr>state := initialState\<lparr>consecutiveFailures := 2\<rparr>\<rparr>"
       and decode = ex_decode and query = "\<lambda>f. Inl ''timeout''" and clock = ex_clock
       and timeRange = R7d and customRange = None, OF c]
    by (simp add: ex_hook_def initialState_def)
qed

section \<open>Sums over the groups\<close>

lemma foldl_add_amount:
  "foldl (\<lambda>sum zap. sum + amount zap) a zaps = a + sum_list (map amount zaps)"
  by (induction zaps arbitrary: a) simp_all

lemma totalEarnings_sum: "totalEarnings zaps = sum_list (map amount zaps)"
  by (simp add: totalEarnings_def foldl_add_amount)

text \<open>Replacing the value of a key changes the sum by the difference of the two values.\<close>

lemma sum_update:
  fixes g :: "'v \<Rightarrow> nat"
  shows "sum_list (map (\<lambda>p. g (snd p)) (AList.update k v m))
           + (case map_of m k of Some e \<Rightarrow> g e | None \<Rightarrow> 0)
         = sum_list (map (\<lambda>p. g (snd p)) m) + g v"
  by (induction m) auto

lemma sum_update_bump:
  fixes g :: "'v \<Rightarrow> nat"
  assumes "g v = (case map_of m k of Some e \<Rightarrow> g e | None \<Rightarrow> 0) + w"
  shows "sum_list (map (\<lambda>p. g (snd p)) (AList.update k v m))
         = sum_list (map (\<lambda>p. g (snd p)) m) + w"
  using sum_update[of g k v m] assms by simp

lemma sum_list_sort_key:
  fixes f :: "'a \<Rightarrow> 'b::comm_monoid_add"
  shows "sum_list (map f (sort_key k xs)) = sum_list (map f xs)"
proof -
  have "mset (map f (sort_key k xs)) = mset (map f xs)" by simp
  then have "sum_mset (mset (map f (sort_key k xs))) = sum_mset (mset (map f xs))"
    by (simp only:)
  then show ?thesis by (simp only: sum_mset_sum_list)
qed

lemma periodLoop_sum:
  "periodLoop js g zaps grouped = Some grouped' \<Longrightarrow>
     sum_list (map (\<lambda>p. ps_totalSats (snd p)) grouped')
       = sum_list (map (\<lambda>p. ps_totalSats (snd p)) grouped) + sum_list (map amount zaps)"
proof (induction zaps arbitrary: grouped)
  case Nil
  then show ?case by simp
next
  case (Cons zap zaps)
  from Cons.prems obtain periodKey periodDate
    where k: "periodOf js g (ev_created_at (receipt zap) * 1000) = Some (periodKey, periodDate)"
    by (auto split: option.splits)
  define existing where "existing =
     (case map_of grouped periodKey of
        Some e \<Rightarrow> e
      | None \<Rightarrow> \<lparr>ps_totalSats = 0, ps_zapCount = 0, ps_date = periodDate\<rparr>)"
  define next' where "next' = AList.update periodKey
     (existing\<lparr>ps_totalSats := ps_totalSats existing + amount zap,
               ps_zapCount := ps_zapCount existing + 1\<rparr>) grouped"
  have step: "sum_list (map (\<lambda>p. ps_totalSats (snd p)) next')
      = sum_list (map (\<lambda>p. ps_totalSats (snd p)) grouped) + amount zap"
    unfolding next'_def
    by (rule sum_update_bump) (simp add: existing_def split: option.split)
  have "periodLoop js g zaps next' = Some grouped'"
    using Cons.prems by (simp add: k Let_def existing_def next'_def)
  from Cons.IH[OF this] show ?case by (simp add: step)
qed

lemma periodLoop_returns:
  "\<forall>zap\<in>set zaps. periodOf js g (ev_created_at (receipt zap) * 1000) \<noteq> None \<Longrightarrow>
     \<exists>grouped'. periodLoop js g zaps grouped = Some grouped'"
  by (induction zaps arbitrary: grouped) (auto simp: Let_def)

lemma period_entries_sum:
  "sum_list (map ep_totalSats (sort_key ep_date (map periodEntry m)))
     = sum_list (map (\<lambda>p. ps_totalSats (snd p)) m)"
proof -
  have "map ep_totalSats (map periodEntry m) = map (\<lambda>p. ps_totalSats (snd p)) m"
    by (induction m) (auto simp: periodEntry_def)
  then show ?thesis by (simp only: sum_list_sort_key)
qed

text \<open>
  Claim C3. The grand total of the snapshot is the sum of the amounts of the parsed
  records. Whenever the period grouping returns, for any range and custom range and hence
  for any granularity it selects, the totals of its buckets add up to the grand total; the
  same holds of the buckets of the loop for each of the four granularities, whatever the
  dates of the host are. The grouping returns when the time of every record is a date the
  host can print.
\<close>

theorem period_totals_add_up:
  "totalEarnings parsedZaps = sum_list (map amount parsedZaps) \<and>
   (\<forall>buckets. groupZapsByPeriod js parsedZaps timeRange customRange = Some buckets \<longrightarrow>
      sum_list (map ep_totalSats buckets) = totalEarnings parsedZaps) \<and>
   (\<forall>g grouped. periodLoop js g parsedZaps [] = Some grouped \<longrightarrow>
      sum_list (map (\<lambda>p. ps_totalSats (snd p)) grouped) = totalEarnings parsedZaps) \<and>
   ((\<forall>zap\<in>set parsedZaps.
       periodOf js (periodGroupBy timeRange customRange) (ev_created_at (receipt zap) * 1000)
         \<noteq> None) \<longrightarrow>
    (\<exists>buckets. groupZapsByPeriod js parsedZaps timeRange customRange = Some buckets))"
proof (intro conjI allI impI)
  show "totalEarnings parsedZaps = sum_list (map amount parsedZaps)"
    by (rule totalEarnings_sum)
next
  fix buckets
  assume "groupZapsByPeriod js parsedZaps timeRange customRange = Some buckets"
  then obtain grouped where
    g: "periodLoop js (periodGroupBy timeRange customRange) parsedZaps [] = Some grouped"
    and b: "buckets = sort_key ep_date (map periodEntry grouped)"
    by (auto simp: groupZapsByPeriod_def split: option.splits)
  show "sum_list (map ep_totalSats buckets) = totalEarnings parsedZaps"
    unfolding b period_entries_sum totalEarnings_sum using periodLoop_sum[OF g] by simp
next
  fix g grouped
  assume "periodLoop js g parsedZaps [] = Some grouped"
  from periodLoop_sum[OF this]
  show "sum_list (map (\<lambda>p. ps_totalSats (snd p)) grouped) = totalEarnings parsedZaps"
    by (simp add: totalEarnings_sum)
next
  assume "\<forall>zap\<in>set parsedZaps.
       periodOf js (periodGroupBy timeRange customRange) (ev_created_at (receipt zap) * 1000)
         \<noteq> None"
  from periodLoop_returns[OF this]
  show "\<exists>buckets. groupZapsByPeriod js parsedZaps timeRange customRange = Some buckets"
    by (auto simp: groupZapsByPeriod_def split: option.splits)
qed

text \<open>Three zaps on two days, grouped by day: the two buckets add up to 8 sats.\<close>

lemma ex_periods:
  "map (\<lambda>b. (ep_period b, ep_totalSats b, ep_zapCount b))
     (the (groupZapsByPeriod utcDate
        [ex_zap ''p1'' 3600 1 None, ex_zap ''p2'' 3700 2 None, ex_zap ''p2'' 1700000000 5 None]
        R7d None))
   = [(''1970-01-01'', 3, 2), (''2023-11-14'', 5, 1)]"
  by code_simp

theorem period_totals_add_up_witness:
  "\<exists>buckets.
     groupZapsByPeriod utcDate
       [ex_zap ''p1'' 3600 1 None, ex_zap ''p2'' 3700 2 None, ex_zap ''p2'' 1700000000 5 None]
       R7d None = Some buckets \<and>
     sum_list (map ep_totalSats buckets) = 8"
proof -
  let ?zs = "[ex_zap ''p1'' 3600 1 None, ex_zap ''p2'' 3700 2 None,
              ex_zap ''p2'' 1700000000 5 None]"
  have v: "\<forall>zap\<in>set ?zs.
       periodOf utcDate (periodGroupBy R7d None) (ev_created_at (receipt zap) * 1000) \<noteq> None"
    by (simp add: periodGroupBy_def utcDate_def utc_toISOString_def ex_zap_def ex_event_def
        split: prod.splits)
  have t: "totalEarnings ?zs = 8" by (simp add: totalEarnings_sum ex_zap_def)
  from period_totals_add_up[of ?zs utcDate R7d None] v t show ?thesis by auto
qed

section \<open>Grouping by hour of the day and by day of the week\<close>

lemma Math_round_div_nat:
  assumes "0 < c"
  shows "Math_round (rat_of_nat t / rat_of_nat c) = int ((2 * t + c) div (2 * c))"
proof -
  have "rat_of_nat t / rat_of_nat c + 1 / 2 = rat_of_nat (2 * t + c) / rat_of_nat (2 * c)"
    using assms by (simp add: field_simps)
  then show ?thesis
    unfolding Math_round_def by (simp only: floor_divide_of_nat_eq)
qed

lemma sorted_int_upt: "sorted (map int [0..<n])"
  by (induction n) (auto simp: sorted_append)

lemma keys_emptyBuckets: "map fst (emptyBuckets n) = map int [0..<n]"
  by (simp add: emptyBuckets_def comp_def)

lemma distinct_int_upt: "distinct (map int [0..<n])"
  by (simp add: distinct_map)

lemma map_of_emptyBuckets:
  "map_of (emptyBuckets n) k = Some s \<Longrightarrow> s = \<lparr>sc_totalSats = 0, sc_zapCount = 0\<rparr>"
  by (auto simp: emptyBuckets_def dest!: map_of_SomeD)

lemma tally_total:
  assumes "\<forall>z\<in>set zaps. key z \<in> fst ` set m"
  shows "\<exists>m'. tally key zaps m = Some m' \<and> map fst m' = map fst m \<and>
           (\<forall>k s. map_of m k = Some s \<longrightarrow>
              map_of m' k =
                Some \<lparr>sc_totalSats =
                        sc_totalSats s + sum_list (map amount (filter (\<lambda>z. key z = k) zaps)),
                      sc_zapCount = sc_zapCount s + length (filter (\<lambda>z. key z = k) zaps)\<rparr>)"
  using assms
proof (induction zaps arbitrary: m)
  case Nil
  then show ?case by simp
next
  case (Cons z zaps)
  from Cons.prems have "key z \<in> fst ` set m" by simp
  then obtain e where e: "map_of m (key z) = Some e"
    by (metis map_of_eq_None_iff not_Some_eq)
  define e' where "e' = e\<lparr>sc_totalSats := sc_totalSats e + amount z,
                           sc_zapCount := sc_zapCount e + 1\<rparr>"
  define m1 where "m1 = AList.update (key z) e' m"
  have keys: "map fst m1 = map fst m"
    using \<open>key z \<in> fst ` set m\<close> by (simp add: m1_def update_keys)
  have look: "map_of m1 = (map_of m)(key z \<mapsto> e')"
    by (simp add: m1_def update_conv')
  have "\<forall>x\<in>set zaps. key x \<in> fst ` set m1"
    using Cons.prems keys by (metis list.set_intros(2) set_map)
  from Cons.IH[OF this] obtain m' where m':
    "tally key zaps m1 = Some m'" "map fst m' = map fst m1"
    "\<And>k s. map_of m1 k = Some s \<Longrightarrow>
        map_of m' k =
          Some \<lparr>sc_totalSats =
                  sc_totalSats s + sum_list (map amount (filter (\<lambda>z. key z = k) zaps)),
                sc_zapCount = sc_zapCount s + length (filter (\<lambda>z. key z = k) zaps)\<rparr>"
    by blast
  have step: "tally key (z # zaps) m = Some m'"
    using e m'(1) by (simp add: m1_def e'_def)
  have vals: "map_of m' k =
          Some \<lparr>sc_totalSats =
                  sc_totalSats s + sum_list (map amount (filter (\<lambda>z. key z = k) (z # zaps))),
                sc_zapCount = sc_zapCount s + length (filter (\<lambda>z. key z = k) (z # zaps))\<rparr>"
    if s: "map_of m k = Some s" for k s
  proof (cases "k = key z")
    case True
    then have "s = e" using s e by simp
    moreover have "map_of m1 k = Some e'" using True by (simp add: look)
    ultimately show ?thesis using m'(3)[of k e'] True by (simp add: e'_def)
  next
    case False
    then have "map_of m1 k = Some s" using s by (simp add: look)
    then show ?thesis using m'(3)[of k s] False by simp
  qed
  show ?case using step m'(2) keys vals by auto
qed

text \<open>The buckets after the loop, when every key of the zaps is one of the \<open>n\<close> buckets.\<close>

lemma tally_buckets:
  assumes "\<forall>z\<in>set zaps. 0 \<le> key z \<and> key z < int n"
  shows "\<exists>m'. tally key zaps (emptyBuckets n) = Some m' \<and> map fst m' = map int [0..<n] \<and>
           (\<forall>(k, s)\<in>set m'.
              sc_totalSats s = sum_list (map amount (filter (\<lambda>z. key z = k) zaps)) \<and>
              sc_zapCount s = length (filter (\<lambda>z. key z = k) zaps))"
proof -
  have in_keys: "\<forall>z\<in>set zaps. key z \<in> fst ` set (emptyBuckets n)"
  proof
    fix z assume "z \<in> set zaps"
    then have "0 \<le> key z" "key z < int n" using assms by auto
    then have "nat (key z) < n" "int (nat (key z)) = key z" by auto
    then have "key z \<in> set (map int [0..<n])"
      by (metis atLeast0LessThan image_eqI lessThan_iff list.set_map set_upt)
    then show "key z \<in> fst ` set (emptyBuckets n)"
      by (simp only: keys_emptyBuckets[symmetric] set_map)
  qed
  from tally_total[OF in_keys] obtain m' where m':
    "tally key zaps (emptyBuckets n) = Some m'" "map fst m' = map fst (emptyBuckets n)"
    "\<And>k s. map_of (emptyBuckets n) k = Some s \<Longrightarrow>
        map_of m' k =
          Some \<lparr>sc_totalSats =
                  sc_totalSats s + sum_list (map amount (filter (\<lambda>z. key z = k) zaps)),
                sc_zapCount = sc_zapCount s + length (filter (\<lambda>z. key z = k) zaps)\<rparr>"
    by blast
  have keys: "map fst m' = map int [0..<n]" using m'(2) by (simp only: keys_emptyBuckets)
  have d: "distinct (map fst m')" unfolding keys by (rule distinct_int_upt)
  have vals: "sc_totalSats s = sum_list (map amount (filter (\<lambda>z. key z = k) zaps)) \<and>
              sc_zapCount s = length (filter (\<lambda>z. key z = k) zaps)"
    if "(k, s) \<in> set m'" for k s
  proof -
    have look: "map_of m' k = Some s" using that d by simp
    have "k \<in> set (map fst (emptyBuckets n))" using that m'(2) by (metis fst_conv image_eqI set_map)
    then obtain s0 where s0: "map_of (emptyBuckets n) k = Some s0"
      by (metis map_of_eq_None_iff not_Some_eq set_map)
    have z: "s0 = \<lparr>sc_totalSats = 0, sc_zapCount = 0\<rparr>" using s0 by (rule map_of_emptyBuckets)
    from m'(3)[OF s0] look show ?thesis by (simp add: z)
  qed
  show ?thesis using m'(1) keys vals by blast
qed

lemma hour_of_entries: "map eh_hour (map hourEntry m) = map fst m"
  by (induction m) (auto simp: hourEntry_def)

lemma day_of_entries: "map ed_dayOfWeek (map dayEntry m) = map fst m"
  by (induction m) (auto simp: dayEntry_def)

text \<open>A record whose key is none of the buckets ends the loop with the \<open>TypeError\<close>.\<close>

lemma tally_fails:
  assumes "\<exists>z\<in>set zaps. key z \<notin> fst ` set m"
  shows "tally key zaps m = None"
  using assms
proof (induction zaps arbitrary: m)
  case Nil
  then show ?case by simp
next
  case (Cons z zaps)
  show ?case
  proof (cases "map_of m (key z)")
    case None
    then show ?thesis by simp
  next
    case (Some e)
    define m1 where "m1 = AList.update (key z)
        (e\<lparr>sc_totalSats := sc_totalSats e + amount z, sc_zapCount := sc_zapCount e + 1\<rparr>) m"
    have in_keys: "key z \<in> fst ` set m"
      using Some by (metis map_of_eq_None_iff option.distinct(1))
    then have "map fst m1 = map fst m" by (simp add: m1_def update_keys)
    then have keys: "fst ` set m1 = fst ` set m" by (metis set_map)
    from Cons.prems in_keys have "\<exists>x\<in>set zaps. key x \<notin> fst ` set m" by auto
    then have "\<exists>x\<in>set zaps. key x \<notin> fst ` set m1" by (simp only: keys)
    then have "tally key zaps m1 = None" by (rule Cons.IH)
    then show ?thesis using Some by (simp add: m1_def)
  qed
qed

lemma tally_buckets_None:
  "tally key zaps (emptyBuckets n) = None \<longleftrightarrow>
     (\<exists>z\<in>set zaps. \<not> (0 \<le> key z \<and> key z < int n))"
proof
  assume none: "tally key zaps (emptyBuckets n) = None"
  show "\<exists>z\<in>set zaps. \<not> (0 \<le> key z \<and> key z < int n)"
  proof (rule ccontr)
    assume "\<not> (\<exists>z\<in>set zaps. \<not> (0 \<le> key z \<and> key z < int n))"
    then have "\<forall>z\<in>set zaps. 0 \<le> key z \<and> key z < int n" by blast
    from tally_buckets[OF this] none show False by simp
  qed
next
  assume "\<exists>z\<in>set zaps. \<not> (0 \<le> key z \<and> key z < int n)"
  then obtain z where z: "z \<in> set zaps" "\<not> (0 \<le> key z \<and> key z < int n)" by blast
  have "key z \<notin> set (map int [0..<n])"
  proof
    assume "key z \<in> set (map int [0..<n])"
    then obtain i where "i < n" "key z = int i" by auto
    then show False using z(2) by simp
  qed
  moreover have "fst ` set (emptyBuckets n) = set (map int [0..<n])"
    by (metis keys_emptyBuckets set_map)
  ultimately have "key z \<notin> fst ` set (emptyBuckets n)" by simp
  with z(1) have "\<exists>z\<in>set zaps. key z \<notin> fst ` set (emptyBuckets n)" by blast
  then show "tally key zaps (emptyBuckets n) = None" by (rule tally_fails)
qed

lemma hours_grouped:
  assumes "\<forall>zap\<in>set zaps. 0 \<le> getHours js (ev_created_at (receipt zap) * 1000) \<and>
                           getHours js (ev_created_at (receipt zap) * 1000) < 24"
  shows "\<exists>hs.
     groupZapsByHour js zaps = Some hs \<and> map eh_hour hs = map int [0..<24] \<and>
     (\<forall>b\<in>set hs.
        eh_totalSats b =
          sum_list (map amount
            (filter (\<lambda>zap. getHours js (ev_created_at (receipt zap) * 1000) = eh_hour b) zaps)) \<and>
        eh_zapCount b =
          length (filter (\<lambda>zap. getHours js (ev_created_at (receipt zap) * 1000) = eh_hour b)
            zaps) \<and>
        eh_avgZapAmount b =
          (if 0 < eh_zapCount b
           then Math_round (rat_of_nat (eh_totalSats b) / rat_of_nat (eh_zapCount b)) else 0))"
proof -
  let ?hour = "\<lambda>zap. getHours js (ev_created_at (receipt zap) * 1000)"
  from assms have "\<forall>z\<in>set zaps. 0 \<le> ?hour z \<and> ?hour z < int 24" by simp
  from tally_buckets[OF this] obtain mh where mh:
    "tally ?hour zaps (emptyBuckets 24) = Some mh" "map fst mh = map int [0..<24]"
    "\<forall>(k, s)\<in>set mh.
        sc_totalSats s = sum_list (map amount (filter (\<lambda>z. ?hour z = k) zaps)) \<and>
        sc_zapCount s = length (filter (\<lambda>z. ?hour z = k) zaps)"
    by blast
  have sh: "sort_key eh_hour (map hourEntry mh) = map hourEntry mh"
    by (rule sort_key_id_if_sorted) (simp only: hour_of_entries mh(2) sorted_int_upt)
  have h: "groupZapsByHour js zaps = Some (map hourEntry mh)"
    by (simp add: groupZapsByHour_def mh(1) sh)
  have hk: "map eh_hour (map hourEntry mh) = map int [0..<24]"
    by (simp only: hour_of_entries mh(2))
  have hb: "\<forall>b\<in>set (map hourEntry mh).
        eh_totalSats b = sum_list (map amount (filter (\<lambda>zap. ?hour zap = eh_hour b) zaps)) \<and>
        eh_zapCount b = length (filter (\<lambda>zap. ?hour zap = eh_hour b) zaps) \<and>
        eh_avgZapAmount b =
          (if 0 < eh_zapCount b
           then Math_round (rat_of_nat (eh_totalSats b) / rat_of_nat (eh_zapCount b)) else 0)"
    using mh(3) by (auto simp: hourEntry_def avgZapAmount_def)
  from h hk hb show ?thesis by blast
qed

lemma days_grouped:
  assumes "\<forall>zap\<in>set zaps. 0 \<le> getDay js (ev_created_at (receipt zap) * 1000) \<and>
                           getDay js (ev_created_at (receipt zap) * 1000) < 7"
  shows "\<exists>ds.
     groupZapsByDayOfWeek js zaps = Some ds \<and> map ed_dayOfWeek ds = map int [0..<7] \<and>
     (\<forall>b\<in>set ds.
        ed_totalSats b =
          sum_list (map amount
            (filter (\<lambda>zap. getDay js (ev_created_at (receipt zap) * 1000) = ed_dayOfWeek b)
              zaps)) \<and>
        ed_zapCount b =
          length (filter (\<lambda>zap. getDay js (ev_created_at (receipt zap) * 1000) = ed_dayOfWeek b)
            zaps) \<and>
        ed_avgZapAmount b =
          (if 0 < ed_zapCount b
           then Math_round (rat_of_nat (ed_totalSats b) / rat_of_nat (ed_zapCount b)) else 0))"
proof -
  let ?day = "\<lambda>zap. getDay js (ev_created_at (receipt zap) * 1000)"
  from assms have "\<forall>z\<in>set zaps. 0 \<le> ?day z \<and> ?day z < int 7" by simp
  from tally_buckets[OF this] obtain md where md:
    "tally ?day zaps (emptyBuckets 7) = Some md" "map fst md = map int [0..<7]"
    "\<forall>(k, s)\<in>set md.
        sc_totalSats s = sum_list (map amount (filter (\<lambda>z. ?day z = k) zaps)) \<and>
        sc_zapCount s = length (filter (\<lambda>z. ?day z = k) zaps)"
    by blast
  have sd: "sort_key ed_dayOfWeek (map dayEntry md) = map dayEntry md"
    by (rule sort_key_id_if_sorted) (simp only: day_of_entries md(2) sorted_int_upt)
  have d: "groupZapsByDayOfWeek js zaps = Some (map dayEntry md)"
    by (simp add: groupZapsByDayOfWeek_def md(1) sd)
  have dk: "map ed_dayOfWeek (map dayEntry md) = map int [0..<7]"
    by (simp only: day_of_entries md(2))
  have db: "\<forall>b\<in>set (map dayEntry md).
        ed_totalSats b = sum_list (map amount (filter (\<lambda>zap. ?day zap = ed_dayOfWeek b) zaps)) \<and>
        ed_zapCount b = length (filter (\<lambda>zap. ?day zap = ed_dayOfWeek b) zaps) \<and>
        ed_avgZapAmount b =
          (if 0 < ed_zapCount b
           then Math_round (rat_of_nat (ed_totalSats b) / rat_of_nat (ed_zapCount b)) else 0)"
    using md(3) by (auto simp: dayEntry_def avgZapAmount_def)
  from d dk db show ?thesis by blast
qed

lemma hours_throw:
  "groupZapsByHour js zaps = None \<longleftrightarrow>
     (\<exists>zap\<in>set zaps. \<not> (0 \<le> getHours js (ev_created_at (receipt zap) * 1000) \<and>
                           getHours js (ev_created_at (receipt zap) * 1000) < 24))"
proof -
  have "groupZapsByHour js zaps = None \<longleftrightarrow>
      tally (\<lambda>zap. getHours js (ev_created_at (receipt zap) * 1000)) zaps (emptyBuckets 24) = None"
    by (simp add: groupZapsByHour_def split: option.splits)
  then show ?thesis
    using tally_buckets_None
      [where key = "\<lambda>zap. getHours js (ev_created_at (receipt zap) * 1000)" and zaps = zaps
         and n = 24]
    by simp
qed

lemma days_throw:
  "groupZapsByDayOfWeek js zaps = None \<longleftrightarrow>
     (\<exists>zap\<in>set zaps. \<not> (0 \<le> getDay js (ev_created_at (receipt zap) * 1000) \<and>
                           getDay js (ev_created_at (receipt zap) * 1000) < 7))"
proof -
  have "groupZapsByDayOfWeek js zaps = None \<longleftrightarrow>
      tally (\<lambda>zap. getDay js (ev_created_at (receipt zap) * 1000)) zaps (emptyBuckets 7) = None"
    by (simp add: groupZapsByDayOfWeek_def split: option.splits)
  then show ?thesis
    using tally_buckets_None
      [where key = "\<lambda>zap. getDay js (ev_created_at (receipt zap) * 1000)" and zaps = zaps
         and n = 7]
    by simp
qed

text \<open>On the host in UTC the hour and the day are in their ranges exactly for a valid date.\<close>

lemma utc_in_range:
  "0 \<le> getHours utcDate t \<and> getHours utcDate t < 24 \<longleftrightarrow> validTime t"
  "0 \<le> getDay utcDate t \<and> getDay utcDate t < 7 \<longleftrightarrow> validTime t"
  by (simp_all add: utcDate_def NaN_def)

lemma utc_throw:
  "groupZapsByHour utcDate zaps = None \<longleftrightarrow>
     (\<exists>zap\<in>set zaps. \<not> validTime (ev_created_at (receipt zap) * 1000))"
  "groupZapsByDayOfWeek utcDate zaps = None \<longleftrightarrow>
     (\<exists>zap\<in>set zaps. \<not> validTime (ev_created_at (receipt zap) * 1000))"
  by (simp_all only: hours_throw days_throw utc_in_range)

text \<open>
  Claim C7, as the code has it. The time of every record is a valid date, so that the
  host's \<open>getHours\<close> returns an hour from 0 to 23 and its \<open>getDay\<close> a day from 0 to 6 for
  it. Then, for every list of parsed records (the empty list too), the grouping by hour
  returns 24 buckets whose hours are 0, 1, ..., 23 in this order, and the grouping by day
  of the week returns 7 buckets whose days are 0, 1, ..., 6 in this order; the total of a
  bucket is the sum of the amounts of the records of its hour (or day) and its count is
  their number, so that a bucket without records is there with total 0 and count 0; and
  the average of a bucket is its total divided by its count, rounded to the nearest
  integer (a half upwards), when the count is positive, and 0 otherwise. Each grouping
  throws exactly when the list holds a record whose time is no valid date: its hour
  (or day) is \<open>NaN\<close> then, which is none of the buckets. On the host in UTC a time
  is a valid date exactly when it is at most 8640000000000000 milliseconds from the epoch.
\<close>

theorem temporal_buckets:
  "((\<forall>zap\<in>set zaps. 0 \<le> getHours js (ev_created_at (receipt zap) * 1000) \<and>
                      getHours js (ev_created_at (receipt zap) * 1000) < 24) \<longrightarrow>
    (\<exists>hs.
       groupZapsByHour js zaps = Some hs \<and> map eh_hour hs = map int [0..<24] \<and>
       (\<forall>b\<in>set hs.
          eh_totalSats b =
            sum_list (map amount
              (filter (\<lambda>zap. getHours js (ev_created_at (receipt zap) * 1000) = eh_hour b)
                 zaps)) \<and>
          eh_zapCount b =
            length (filter (\<lambda>zap. getHours js (ev_created_at (receipt zap) * 1000) = eh_hour b)
              zaps) \<and>
          eh_avgZapAmount b =
            (if 0 < eh_zapCount b
             then Math_round (rat_of_nat (eh_totalSats b) / rat_of_nat (eh_zapCount b))
             else 0)))) \<and>
   ((\<forall>zap\<in>set zaps. 0 \<le> getDay js (ev_created_at (receipt zap) * 1000) \<and>
                      getDay js (ev_created_at (receipt zap) * 1000) < 7) \<longrightarrow>
    (\<exists>ds.
       groupZapsByDayOfWeek js zaps = Some ds \<and> map ed_dayOfWeek ds = map int [0..<7] \<and>
       (\<forall>b\<in>set ds.
          ed_totalSats b =
            sum_list (map amount
              (filter (\<lambda>zap. getDay js (ev_created_at (receipt zap) * 1000) = ed_dayOfWeek b)
                zaps)) \<and>
          ed_zapCount b =
            length (filter (\<lambda>zap. getDay js (ev_created_at (receipt zap) * 1000) = ed_dayOfWeek b)
              zaps) \<and>
          ed_avgZapAmount b =
            (if 0 < ed_zapCount b
             then Math_round (rat_of_nat (ed_totalSats b) / rat_of_nat (ed_zapCount b))
             else 0)))) \<and>
   (groupZapsByHour js zaps = None \<longleftrightarrow>
      (\<exists>zap\<in>set zaps. \<not> (0 \<le> getHours js (ev_created_at (receipt zap) * 1000) \<and>
                            getHours js (ev_created_at (receipt zap) * 1000) < 24))) \<and>
   (groupZapsByDayOfWeek js zaps = None \<longleftrightarrow>
      (\<exists>zap\<in>set zaps. \<not> (0 \<le> getDay js (ev_created_at (receipt zap) * 1000) \<and>
                            getDay js (ev_created_at (receipt zap) * 1000) < 7))) \<and>
   (groupZapsByHour utcDate zaps = None \<longleftrightarrow>
      (\<exists>zap\<in>set zaps. \<not> validTime (ev_created_at (receipt zap) * 1000))) \<and>
   (groupZapsByDayOfWeek utcDate zaps = None \<longleftrightarrow>
      (\<exists>zap\<in>set zaps. \<not> validTime (ev_created_at (receipt zap) * 1000)))"
  by (rule conjI[OF impI[OF hours_grouped] conjI[OF impI[OF days_grouped]
        conjI[OF hours_throw conjI[OF days_throw conjI[OF utc_throw(1) utc_throw(2)]]]]])

text \<open>Two zaps on 1 January 1970 between one and two o'clock, on a host in UTC.\<close>

theorem temporal_buckets_witness:
  "list_all (\<lambda>zap.
      0 \<le> getHours utcDate (ev_created_at (receipt zap) * 1000) \<and>
      getHours utcDate (ev_created_at (receipt zap) * 1000) < 24 \<and>
      0 \<le> getDay utcDate (ev_created_at (receipt zap) * 1000) \<and>
      getDay utcDate (ev_created_at (receipt zap) * 1000) < 7)
     [ex_zap ''p1'' 3600 1 None, ex_zap ''p2'' 3700 2 None] \<and>
   (\<exists>hs ds.
     groupZapsByHour utcDate [ex_zap ''p1'' 3600 1 None, ex_zap ''p2'' 3700 2 None] = Some hs \<and>
     groupZapsByDayOfWeek utcDate [ex_zap ''p1'' 3600 1 None, ex_zap ''p2'' 3700 2 None]
       = Some ds \<and>
     length hs = 24 \<and> length ds = 7)"
proof -
  let ?zs = "[ex_zap ''p1'' 3600 1 None, ex_zap ''p2'' 3700 2 None]"
  have h1: "\<forall>zap\<in>set ?zs. 0 \<le> getHours utcDate (ev_created_at (receipt zap) * 1000) \<and>
                         getHours utcDate (ev_created_at (receipt zap) * 1000) < 24"
    by (simp add: utcDate_def validTime_def ex_zap_def ex_event_def)
  have h2: "\<forall>zap\<in>set ?zs. 0 \<le> getDay utcDate (ev_created_at (receipt zap) * 1000) \<and>
                         getDay utcDate (ev_created_at (receipt zap) * 1000) < 7"
    by (simp add: utcDate_def validTime_def ex_zap_def ex_event_def)
  note t = temporal_buckets[where js = utcDate and zaps = ?zs]
  from t[THEN conjunct1, THEN mp, OF h1] obtain hs where hs:
    "groupZapsByHour utcDate ?zs = Some hs" "map eh_hour hs = map int [0..<24]"
    by blast
  from t[THEN conjunct2, THEN conjunct1, THEN mp, OF h2] obtain ds where ds:
    "groupZapsByDayOfWeek utcDate ?zs = Some ds" "map ed_dayOfWeek ds = map int [0..<7]"
    by blast
  have "length (map eh_hour hs) = 24" "length (map ed_dayOfWeek ds) = 7"
    unfolding hs(2) ds(2) by simp_all
  then have "length hs = 24" "length ds = 7" by simp_all
  with hs(1) ds(1) have "\<exists>hs ds. groupZapsByHour utcDate ?zs = Some hs \<and>
      groupZapsByDayOfWeek utcDate ?zs = Some ds \<and> length hs = 24 \<and> length ds = 7"
    by blast
  moreover have "list_all (\<lambda>zap.
      0 \<le> getHours utcDate (ev_created_at (receipt zap) * 1000) \<and>
      getHours utcDate (ev_created_at (receipt zap) * 1000) < 24 \<and>
      0 \<le> getDay utcDate (ev_created_at (receipt zap) * 1000) \<and>
      getDay utcDate (ev_created_at (receipt zap) * 1000) < 7) ?zs"
    using h1 h2 unfolding list_all_iff by blast
  ultimately show ?thesis by (rule conjI[rotated])
qed

text \<open>
  The claim as stated fails on the average: the bucket of Thursday holds 3 sats in 2
  records, and its average is 2, not 3 / 2. It fails on a list that holds a record whose
  time is no valid date, too: a record with \<open>created_at\<close> = 10000000000000000 seconds is
  beyond the last date, its hour and its day are \<open>NaN\<close>, and neither grouping returns.
\<close>

lemma ex_tally_day:
  "tally (\<lambda>zap. getDay utcDate (ev_created_at (receipt zap) * 1000))
      [ex_zap ''p1'' 3600 1 None, ex_zap ''p2'' 3700 2 None] (emptyBuckets 7)
   = Some [(0, \<lparr>sc_totalSats = 0, sc_zapCount = 0\<rparr>), (1, \<lparr>sc_totalSats = 0, sc_zapCount = 0\<rparr>),
           (2, \<lparr>sc_totalSats = 0, sc_zapCount = 0\<rparr>), (3, \<lparr>sc_totalSats = 0, sc_zapCount = 0\<rparr>),
           (4, \<lparr>sc_totalSats = 3, sc_zapCount = 2\<rparr>), (5, \<lparr>sc_totalSats = 0, sc_zapCount = 0\<rparr>),
           (6, \<lparr>sc_totalSats = 0, sc_zapCount = 0\<rparr>)]"
  by code_simp

lemma ex_invalid_date:
  "groupZapsByHour utcDate [ex_zap ''p1'' 10000000000000000 1 None] = None"
  "groupZapsByDayOfWeek utcDate [ex_zap ''p1'' 10000000000000000 1 None] = None"
  by (simp_all add: groupZapsByHour_def groupZapsByDayOfWeek_def utcDate_def validTime_def
      ex_zap_def ex_event_def NaN_def emptyBuckets_def upt_rec)

theorem rounded_average_counterexample:
  "map (\<lambda>b. (ed_dayOfWeek b, ed_totalSats b, ed_zapCount b, ed_avgZapAmount b))
     (the (groupZapsByDayOfWeek utcDate [ex_zap ''p1'' 3600 1 None, ex_zap ''p2'' 3700 2 None]))
   = [(0, 0, 0, 0), (1, 0, 0, 0), (2, 0, 0, 0), (3, 0, 0, 0), (4, 3, 2, 2), (5, 0, 0, 0),
      (6, 0, 0, 0)] \<and>
   rat_of_int 2 \<noteq> rat_of_nat 3 / rat_of_nat 2 \<and>
   groupZapsByHour utcDate [ex_zap ''p1'' 10000000000000000 1 None] = None \<and>
   groupZapsByDayOfWeek utcDate [ex_zap ''p1'' 10000000000000000 1 None] = None"
  unfolding groupZapsByDayOfWeek_def ex_tally_day ex_invalid_date[unfolded groupZapsByDayOfWeek_def]
  by (simp add: dayEntry_def avgZapAmount_def Math_round_def)

section \<open>Grouping by kind\<close>

lemma kindStep_sum:
  "sum_list (map (\<lambda>p. sc_totalSats (snd p)) (kindStep grouped zap))
     = sum_list (map (\<lambda>p. sc_totalSats (snd p)) grouped)
       + (if zappedEvent zap = None then 0 else amount zap)"
proof (cases "zappedEvent zap")
  case None
  then show ?thesis by (simp add: kindStep_def)
next
  case (Some ze)
  show ?thesis
    unfolding kindStep_def Some Let_def option.case
    by (simp, rule sum_update_bump) (simp split: option.split)
qed

lemma kind_fold_sum:
  "sum_list (map (\<lambda>p. sc_totalSats (snd p)) (foldl kindStep grouped zaps))
     = sum_list (map (\<lambda>p. sc_totalSats (snd p)) grouped)
       + sum_list (map amount (filter (\<lambda>z. zappedEvent z \<noteq> None) zaps))"
  by (induction zaps arbitrary: grouped) (simp_all add: kindStep_sum)

lemma sum_filter_eq_iff:
  fixes f :: "'a \<Rightarrow> nat"
  shows "sum_list (map f (filter P xs)) = sum_list (map f xs)
           \<longleftrightarrow> (\<forall>x\<in>set xs. \<not> P x \<longrightarrow> f x = 0)"
proof (induction xs)
  case Nil
  then show ?case by simp
next
  case (Cons x xs)
  have le: "sum_list (map f (filter P xs)) \<le> sum_list (map f xs)"
    by (rule sum_list_filter_le_nat)
  show ?case
  proof (cases "P x")
    case True
    then show ?thesis using Cons by simp
  next
    case False
    then show ?thesis using Cons le by auto
  qed
qed

lemma groupZapsByKind_eq:
  "groupZapsByKind zaps = sort_key (\<lambda>e. - int (ek_totalSats e))
      (map (kindEntry (sum_list (map amount zaps))) (foldl kindStep [] zaps))"
  by (simp add: groupZapsByKind_def Let_def foldl_add_amount)

lemma kind_entry_pct:
  "e \<in> set (groupZapsByKind zaps) \<Longrightarrow>
     ek_percentage e =
       (if 0 < sum_list (map amount zaps)
        then double_times (double_div (ek_totalSats e) (sum_list (map amount zaps))) 100
        else (0, 0))"
proof -
  assume "e \<in> set (groupZapsByKind zaps)"
  then obtain p where "e = kindEntry (sum_list (map amount zaps)) p"
    unfolding groupZapsByKind_eq by auto
  then show ?thesis by (cases p) (simp add: kindEntry_def del: sum_list_eq_0_iff)
qed

lemma kind_totals:
  "sum_list (map ek_totalSats (groupZapsByKind zaps))
     = sum_list (map amount (filter (\<lambda>z. zappedEvent z \<noteq> None) zaps))"
proof -
  have "map ek_totalSats (map (kindEntry T) m) = map (\<lambda>p. sc_totalSats (snd p)) m" for T m
    by (induction m) (auto simp: kindEntry_def)
  then show ?thesis
    by (simp only: groupZapsByKind_eq sum_list_sort_key kind_fold_sum) simp
qed

subsection \<open>Rounding to a double\<close>

lemma bitlen_bounds:
  "0 < n \<Longrightarrow> n < 2 ^ bitlen n \<and> 2 ^ bitlen n \<le> 2 * n"
proof (induction n rule: bitlen.induct)
  case (1 n)
  have b: "bitlen n = Suc (bitlen (n div 2))" using "1.prems" by (simp add: bitlen.simps[of n])
  show ?case
  proof (cases "n div 2 = 0")
    case True
    then have "n = 1" using "1.prems" by (simp add: div_eq_0_iff) 
    moreover have "bitlen (0::nat) = 0" by (simp add: bitlen.simps[of 0])
    ultimately show ?thesis using b True by simp
  next
    case False
    then have pos: "0 < n div 2" by simp
    have "n \<noteq> 0" using "1.prems" by simp
    from "1.IH"[OF this pos]
    have ih: "n div 2 < 2 ^ bitlen (n div 2)" "2 ^ bitlen (n div 2) \<le> 2 * (n div 2)"
      by simp_all
    have "n < 2 * 2 ^ bitlen (n div 2)" using ih(1) by linarith
    moreover have "2 * 2 ^ bitlen (n div 2) \<le> 2 * n" using ih(2) by linarith
    ultimately show ?thesis unfolding b by simp
  qed
qed

lemma roundHalfEven_error:
  assumes "0 < d"
  shows "\<bar>rat_of_nat (roundHalfEven n d) - rat_of_nat n / rat_of_nat d\<bar> \<le> 1 / 2"
proof -
  define q where "q = n div d"
  define r where "r = n mod d"
  have n: "n = q * d + r" by (simp add: q_def r_def)
  have x: "rat_of_nat n / rat_of_nat d = rat_of_nat q + rat_of_nat r / rat_of_nat d"
    using assms unfolding n by (simp add: field_simps)
  have dpos: "0 < rat_of_nat d" using assms by simp
  consider "2 * r < d" | "d < 2 * r" | "2 * r = d" by linarith
  then show ?thesis
  proof cases
    case 1
    then have "roundHalfEven n d = q" by (simp add: roundHalfEven_def Let_def q_def r_def)
    moreover have "rat_of_nat (2 * r) \<le> rat_of_nat d" using 1 by (simp only: of_nat_le_iff)
    then have "rat_of_nat r / rat_of_nat d \<le> 1 / 2" using dpos by (simp add: field_simps)
    moreover have "0 \<le> rat_of_nat r / rat_of_nat d" by simp
    ultimately show ?thesis unfolding x by simp
  next
    case 2
    then have "roundHalfEven n d = q + 1" by (simp add: roundHalfEven_def Let_def q_def r_def)
    moreover have "rat_of_nat d \<le> rat_of_nat (2 * r)" using 2 by (simp only: of_nat_le_iff)
    then have "1 / 2 \<le> rat_of_nat r / rat_of_nat d" using dpos by (simp add: field_simps)
    moreover have "r < d" using assms by (simp add: r_def)
    then have "rat_of_nat r < rat_of_nat d" by (simp only: of_nat_less_iff)
    then have "rat_of_nat r / rat_of_nat d < 1" using dpos by simp
    ultimately show ?thesis unfolding x by simp
  next
    case 3
    then have "rat_of_nat (2 * r) = rat_of_nat d" by simp
    then have h: "rat_of_nat r / rat_of_nat d = 1 / 2" using dpos by (simp add: field_simps)
    have "roundHalfEven n d = q \<or> roundHalfEven n d = q + 1"
      using 3 by (simp add: roundHalfEven_def Let_def q_def r_def)
    then show ?thesis unfolding x h by auto
  qed
qed

lemma powi_nonneg: "0 \<le> e \<Longrightarrow> (2::rat) powi e = 2 ^ nat e"
proof -
  assume "0 \<le> e"
  then have "e = int (nat e)" by simp
  then have "(2::rat) powi e = 2 powi int (nat e)" by (rule arg_cong)
  then show ?thesis by (simp only: power_int_of_nat)
qed

lemma powi_neg: "e < 0 \<Longrightarrow> (2::rat) powi e = 1 / 2 ^ nat (- e)"
proof -
  assume "e < 0"
  then have "e = - int (nat (- e))" by simp
  then have "(2::rat) powi e = 2 powi (- int (nat (- e)))" by (rule arg_cong)
  then show ?thesis by (simp only: power_int_minus_divide power_int_of_nat)
qed

lemma dval_powi: "dval (m, e) = rat_of_nat m * 2 powi e"
proof (cases "e < 0")
  case True
  then show ?thesis by (simp add: dval_def powi_neg)
next
  case False
  then show ?thesis by (simp add: dval_def powi_nonneg)
qed

lemma scaled_quotient:
  assumes "0 < d"
  shows "rat_of_nat (if e < 0 then n * 2 ^ nat (- e) else n)
           / rat_of_nat (if e < 0 then d else d * 2 ^ nat e)
         = rat_of_nat n / rat_of_nat d / 2 powi e"
proof (cases "e < 0")
  case True
  then show ?thesis by (simp add: powi_neg)
next
  case False
  then show ?thesis by (simp add: powi_nonneg)
qed

text \<open>
  The significand of \<open>toDouble n d\<close> has 53 binary digits, and it is the integer nearest
  to \<open>n / d\<close> on the scale of the exponent: the result is the double nearest to \<open>n / d\<close>.
\<close>

lemma toDouble_significand:
  assumes "0 < n" and "0 < d"
  shows "2 ^ 52 \<le> fst (toDouble n d) \<and> fst (toDouble n d) \<le> 2 ^ 53 \<and>
         2 ^ 52 \<le> rat_of_nat n / rat_of_nat d / 2 powi snd (toDouble n d) \<and>
         rat_of_nat n / rat_of_nat d / 2 powi snd (toDouble n d) < 2 ^ 53 \<and>
         \<bar>rat_of_nat (fst (toDouble n d))
            - rat_of_nat n / rat_of_nat d / 2 powi snd (toDouble n d)\<bar> \<le> 1 / 2"
proof -
  define x where "x = rat_of_nat n / rat_of_nat d"
  define e1 where "e1 = int (bitlen n) - int (bitlen d) - 53"
  define num where "num = (\<lambda>e::int. if e < 0 then n * 2 ^ nat (- e) else n)"
  define den where "den = (\<lambda>e::int. if e < 0 then d else d * 2 ^ nat e)"
  define e where "e = (if num e1 < 2 ^ 53 * den e1 then e1 else e1 + 1)"
  define m where "m = roundHalfEven (num e) (den e)"
  define p where "p = (2::rat) powi e"
  define p1 where "p1 = (2::rat) powi e1"
  have td: "toDouble n d = (m, e)"
    using assms by (simp add: toDouble_def Let_def m_def e_def num_def den_def e1_def)
  have npos: "0 < rat_of_nat n" and dpos: "0 < rat_of_nat d" using assms by simp_all
  have ppos: "0 < p" unfolding p_def by simp
  have p1pos: "0 < p1" unfolding p1_def by simp
  have ratio: "rat_of_nat (num k) / rat_of_nat (den k) = x / 2 powi k" for k
    unfolding num_def den_def x_def using assms(2) by (rule scaled_quotient)
  have denpos: "0 < den k" for k using assms by (simp add: den_def)
  have n_lo: "2 ^ bitlen n \<le> 2 * n" and n_hi: "n < 2 ^ bitlen n"
    and d_lo: "2 ^ bitlen d \<le> 2 * d" and d_hi: "d < 2 ^ bitlen d"
    using bitlen_bounds[of n] bitlen_bounds[of d] assms by simp_all
  have p1: "p1 = 2 ^ bitlen n / (2 ^ bitlen d * 2 ^ 53)"
  proof -
    have "int (bitlen n) - int (bitlen d) - 53 = int (bitlen n) - int (bitlen d + 53)"
      by simp
    then have "p1 = 2 powi (int (bitlen n) - int (bitlen d + 53))"
      unfolding p1_def e1_def by (rule arg_cong)
    also have "\<dots> = 2 powi int (bitlen n) / 2 powi int (bitlen d + 53)"
      by (rule power_int_diff) simp
    also have "\<dots> = 2 ^ bitlen n / 2 ^ (bitlen d + 53)"
      by (simp only: power_int_of_nat)
    finally show ?thesis by (simp only: power_add)
  qed
  have rn_lo: "(2::rat) ^ bitlen n \<le> 2 * rat_of_nat n"
    using n_lo by (metis of_nat_le_iff of_nat_mult of_nat_numeral of_nat_power)
  have rn_hi: "rat_of_nat n < 2 ^ bitlen n"
    using n_hi by (metis of_nat_less_iff of_nat_numeral of_nat_power)
  have rd_lo: "(2::rat) ^ bitlen d \<le> 2 * rat_of_nat d"
    using d_lo by (metis of_nat_le_iff of_nat_mult of_nat_numeral of_nat_power)
  have rd_hi: "rat_of_nat d < 2 ^ bitlen d"
    using d_hi by (metis of_nat_less_iff of_nat_numeral of_nat_power)
  have s1_lo: "2 ^ 52 * p1 < x"
  proof -
    have "2 ^ 52 * p1 = 2 ^ bitlen n / (2 * 2 ^ bitlen d)" unfolding p1 by simp
    also have "\<dots> \<le> 2 * rat_of_nat n / (2 * 2 ^ bitlen d)"
      by (rule divide_right_mono[OF rn_lo]) simp
    also have "\<dots> = rat_of_nat n / 2 ^ bitlen d" by simp
    also have "\<dots> < rat_of_nat n / rat_of_nat d"
      using rd_hi npos dpos by (simp add: divide_strict_left_mono)
    finally show ?thesis unfolding x_def .
  qed
  have s1_hi: "x < 2 ^ 54 * p1"
  proof -
    have "x < 2 ^ bitlen n / rat_of_nat d"
      unfolding x_def using rn_hi dpos by (simp add: divide_strict_right_mono)
    also have "\<dots> \<le> 2 ^ bitlen n / (2 ^ bitlen d / 2)"
      using rd_lo dpos by (intro divide_left_mono) simp_all
    also have "\<dots> = 2 ^ 54 * p1" unfolding p1 by simp
    finally show ?thesis .
  qed
  have s: "2 ^ 52 * p \<le> x \<and> x < 2 ^ 53 * p"
  proof (cases "num e1 < 2 ^ 53 * den e1")
    case True
    then have "e = e1" by (simp add: e_def)
    then have pp: "p = p1" by (simp add: p_def p1_def)
    from True have "rat_of_nat (num e1) < rat_of_nat (2 ^ 53 * den e1)"
      by (simp only: of_nat_less_iff)
    then have "rat_of_nat (num e1) < 2 ^ 53 * rat_of_nat (den e1)" by simp
    then have "rat_of_nat (num e1) / rat_of_nat (den e1) < 2 ^ 53"
      using denpos[of e1] by (simp add: pos_divide_less_eq)
    then have "x / p1 < 2 ^ 53" unfolding ratio p1_def .
    then have "x < 2 ^ 53 * p1" using p1pos by (simp add: pos_divide_less_eq)
    then show ?thesis using s1_lo unfolding pp by simp
  next
    case False
    then have e: "e = e1 + 1" by (simp add: e_def)
    have "p = 2 powi (e1 + 1)" unfolding p_def e by simp
    also have "\<dots> = 2 powi e1 * 2 powi 1" by (rule power_int_add) simp
    finally have p: "p = 2 * p1" by (simp add: p1_def)
    from False have "2 ^ 53 * den e1 \<le> num e1" by simp
    then have "rat_of_nat (2 ^ 53 * den e1) \<le> rat_of_nat (num e1)" by (simp only: of_nat_le_iff)
    then have "2 ^ 53 * rat_of_nat (den e1) \<le> rat_of_nat (num e1)" by simp
    then have "2 ^ 53 \<le> rat_of_nat (num e1) / rat_of_nat (den e1)"
      using denpos[of e1] by (simp add: pos_le_divide_eq)
    then have "2 ^ 53 \<le> x / p1" unfolding ratio p1_def .
    then have "2 ^ 53 * p1 \<le> x" using p1pos by (simp add: pos_le_divide_eq)
    then show ?thesis using s1_hi unfolding p by simp
  qed
  then have q: "2 ^ 52 \<le> x / p" "x / p < 2 ^ 53"
    using ppos by (simp_all add: pos_le_divide_eq pos_divide_less_eq)
  have rerr: "\<bar>rat_of_nat m - x / p\<bar> \<le> 1 / 2"
    using roundHalfEven_error[where n = "num e" and d = "den e", OF denpos]
    unfolding m_def ratio p_def .
  define s where "s = x / p"
  have q1: "4503599627370496 \<le> s" and q2: "s < 9007199254740992"
    using q by (simp_all add: s_def)
  have rerr': "\<bar>rat_of_nat m - s\<bar> \<le> 1 / 2" using rerr by (simp only: s_def)
  have "4503599627370495 < rat_of_nat m" using rerr' q1 by linarith
  then have "4503599627370495 < m" by simp
  then have lo: "2 ^ 52 \<le> m" by simp
  have "rat_of_nat m < 9007199254740993" using rerr' q2 by linarith
  then have "m < 9007199254740993" by simp
  then have hi: "m \<le> 2 ^ 53" by simp
  show ?thesis using lo hi rerr q unfolding td x_def p_def by simp
qed

text \<open>The error of the rounding is at most half a unit of the last binary digit.\<close>

lemma toDouble_error:
  assumes "0 < d"
  shows "\<bar>dval (toDouble n d) - rat_of_nat n / rat_of_nat d\<bar>
           \<le> rat_of_nat n / rat_of_nat d / 2 ^ 53"
proof (cases "n = 0")
  case True
  then show ?thesis by (simp add: toDouble_def dval_def)
next
  case False
  define x where "x = rat_of_nat n / rat_of_nat d"
  define m where "m = fst (toDouble n d)"
  define p where "p = (2::rat) powi snd (toDouble n d)"
  have ppos: "0 < p" unfolding p_def by simp
  from False have "0 < n" by simp
  from toDouble_significand[OF this assms]
  have s_lo: "2 ^ 52 \<le> x / p" and rerr: "\<bar>rat_of_nat m - x / p\<bar> \<le> 1 / 2"
    unfolding x_def m_def p_def by simp_all
  have v: "dval (toDouble n d) = rat_of_nat m * p"
    unfolding m_def p_def using dval_powi[of "fst (toDouble n d)" "snd (toDouble n d)"] by simp
  have "dval (toDouble n d) - x = p * (rat_of_nat m - x / p)"
    unfolding v using ppos by (simp add: field_simps)
  then have "\<bar>dval (toDouble n d) - x\<bar> = p * \<bar>rat_of_nat m - x / p\<bar>"
    using ppos by (simp add: abs_mult)
  also have "\<dots> \<le> p * (1 / 2)" using rerr ppos by (simp only: mult_left_mono less_imp_le)
  also have "\<dots> \<le> x / 2 ^ 53"
  proof -
    from s_lo have "2 ^ 52 * p \<le> x" using ppos by (simp add: pos_le_divide_eq)
    then show ?thesis by simp
  qed
  finally show ?thesis unfolding x_def .
qed

lemma double_times_error:
  "\<bar>dval (double_times x k) - dval x * rat_of_nat k\<bar> \<le> dval x * rat_of_nat k / 2 ^ 53"
proof (cases x)
  case (Pair m e)
  show ?thesis
  proof (cases "e < 0")
    case True
    have v: "rat_of_nat (m * k) / rat_of_nat (2 ^ nat (- e)) = dval x * rat_of_nat k"
      using True by (simp add: Pair dval_def)
    have dt: "double_times x k = toDouble (m * k) (2 ^ nat (- e))"
      using True by (simp add: Pair double_times_def)
    have pos: "0 < (2::nat) ^ nat (- e)" by simp
    show ?thesis unfolding dt v[symmetric] using pos by (rule toDouble_error)
  next
    case False
    have v: "rat_of_nat (m * k * 2 ^ nat e) / rat_of_nat 1 = dval x * rat_of_nat k"
      using False by (simp add: Pair dval_def)
    have dt: "double_times x k = toDouble (m * k * 2 ^ nat e) 1"
      using False by (simp add: Pair double_times_def)
    have pos: "0 < (1::nat)" by simp
    show ?thesis unfolding dt v[symmetric] using pos by (rule toDouble_error)
  qed
qed

text \<open>The percentage \<open>(a / t) * 100\<close> after its two roundings.\<close>

lemma percentage_error:
  assumes "0 < t"
  shows "\<bar>dval (double_times (double_div a t) 100) - 100 * (rat_of_nat a / rat_of_nat t)\<bar>
           \<le> 100 * (rat_of_nat a / rat_of_nat t) / 2 ^ 51"
proof -
  define r where "r = rat_of_nat a / rat_of_nat t"
  define y where "y = dval (double_div a t)"
  define p where "p = dval (double_times (double_div a t) 100)"
  define u :: rat where "u = 1 / 2 ^ 53"
  have r0: "0 \<le> r" unfolding r_def by simp
  have u0: "0 \<le> u" unfolding u_def by simp
  have e1: "\<bar>y - r\<bar> \<le> r * u"
    using toDouble_error[OF assms, of a] unfolding y_def r_def u_def double_div_def by simp
  have e2: "\<bar>p - y * 100\<bar> \<le> y * 100 * u"
    using double_times_error[of "double_div a t" 100] unfolding p_def y_def u_def by simp
  from e1 have yu: "y \<le> r + r * u" by linarith
  have "y * 100 * u \<le> (r + r * u) * 100 * u"
    using yu u0 by (simp add: mult_right_mono)
  with e2 have e3: "\<bar>p - y * 100\<bar> \<le> (r + r * u) * 100 * u" by (rule order_trans)
  have "p - 100 * r = (p - y * 100) + 100 * (y - r)" by simp
  then have "\<bar>p - 100 * r\<bar> \<le> \<bar>p - y * 100\<bar> + \<bar>100 * (y - r)\<bar>"
    by (simp only: abs_triangle_ineq)
  moreover have "\<bar>100 * (y - r)\<bar> = 100 * \<bar>y - r\<bar>"
    by (simp only: abs_mult abs_numeral)
  ultimately have "\<bar>p - 100 * r\<bar> \<le> \<bar>p - y * 100\<bar> + 100 * \<bar>y - r\<bar>"
    by (simp only:)
  also have "\<dots> \<le> (r + r * u) * 100 * u + 100 * (r * u)"
    by (rule add_mono[OF e3 mult_left_mono[OF e1]]) simp
  also have "\<dots> = 100 * r * (u * (2 + u))" by (simp add: algebra_simps)
  also have "\<dots> \<le> 100 * r * (1 / 2 ^ 51)"
  proof -
    have "u * (2 + u) \<le> 1 / 2 ^ 51" unfolding u_def by simp
    moreover have "0 \<le> 100 * r" using r0 by simp
    ultimately show ?thesis by (rule mult_left_mono)
  qed
  finally show ?thesis unfolding p_def r_def by simp
qed

lemma sum_list_abs_diff:
  fixes f g h :: "'a \<Rightarrow> rat"
  assumes "\<forall>x\<in>set xs. \<bar>f x - g x\<bar> \<le> h x"
  shows "\<bar>sum_list (map f xs) - sum_list (map g xs)\<bar> \<le> sum_list (map h xs)"
  using assms
proof (induction xs)
  case Nil
  then show ?case by simp
next
  case (Cons x xs)
  then have "\<bar>f x - g x\<bar> \<le> h x"
    and "\<bar>sum_list (map f xs) - sum_list (map g xs)\<bar> \<le> sum_list (map h xs)"
    by simp_all
  then show ?case by simp
qed

lemma sum_list_share:
  "sum_list (map (\<lambda>x. c * (rat_of_nat (g x) / t)) xs)
     = c * (rat_of_nat (sum_list (map g xs)) / t)"
  by (induction xs) (simp_all add: add_divide_distrib distrib_left)

lemma sum_list_share_div:
  "sum_list (map (\<lambda>x. c * (rat_of_nat (g x) / t) / k) xs)
     = c * (rat_of_nat (sum_list (map g xs)) / t) / k"
  by (induction xs) (simp_all add: add_divide_distrib distrib_left)

text \<open>The doubles \<open>(2 / 11) * 100\<close>, \<open>(9 / 11) * 100\<close>, \<open>(1 / 3) * 100\<close> and \<open>(2 / 3) * 100\<close>.\<close>

lemma pct_2_11: "double_times (double_div 2 11) 100 = (5117726849284655, - 48)"
  by (simp add: double_times_def double_div_def toDouble_def Let_def roundHalfEven_def
      bitlen.simps)

lemma pct_9_11: "double_times (double_div 9 11) 100 = (5757442705445237, - 46)"
  by (simp add: double_times_def double_div_def toDouble_def Let_def roundHalfEven_def
      bitlen.simps)

lemma pct_1_3: "double_times (double_div 1 3) 100 = (4691249611844266, - 47)"
  by (simp add: double_times_def double_div_def toDouble_def Let_def roundHalfEven_def
      bitlen.simps)

lemma pct_2_3: "double_times (double_div 2 3) 100 = (4691249611844266, - 46)"
  by (simp add: double_times_def double_div_def toDouble_def Let_def roundHalfEven_def
      bitlen.simps)

lemma ex_grouped_2_9:
  "foldl kindStep [] ex_zaps_2_9
     = [(1, \<lparr>sc_totalSats = 2, sc_zapCount = 1\<rparr>), (30023, \<lparr>sc_totalSats = 9, sc_zapCount = 1\<rparr>)]"
  by (simp add: ex_zaps_2_9_def ex_zap_def ex_post_def ex_article_def kindStep_def)

lemma ex_grouped_1_2:
  "foldl kindStep [] ex_zaps_1_2
     = [(1, \<lparr>sc_totalSats = 1, sc_zapCount = 1\<rparr>), (30023, \<lparr>sc_totalSats = 2, sc_zapCount = 1\<rparr>)]"
  by (simp add: ex_zaps_1_2_def ex_zap_def ex_post_def ex_article_def kindStep_def)

lemma ex_pct_2_9:
  "map (\<lambda>e. (ek_kind e, ek_totalSats e, ek_percentage e)) (groupZapsByKind ex_zaps_2_9)
     = [(30023, 9, (5757442705445237, - 46)), (1, 2, (5117726849284655, - 48))]"
proof -
  have t: "foldl (\<lambda>sum zap. sum + amount zap) 0 ex_zaps_2_9 = 11"
    by (simp add: ex_zaps_2_9_def ex_zap_def)
  show ?thesis
    unfolding groupZapsByKind_def t ex_grouped_2_9 Let_def
    by (simp add: kindEntry_def pct_2_11 pct_9_11)
qed

lemma ex_pct_1_2:
  "map (\<lambda>e. (ek_kind e, ek_totalSats e, ek_percentage e)) (groupZapsByKind ex_zaps_1_2)
     = [(30023, 2, (4691249611844266, - 46)), (1, 1, (4691249611844266, - 47))]"
proof -
  have t: "foldl (\<lambda>sum zap. sum + amount zap) 0 ex_zaps_1_2 = 3"
    by (simp add: ex_zaps_1_2_def ex_zap_def)
  show ?thesis
    unfolding groupZapsByKind_def t ex_grouped_1_2 Let_def
    by (simp add: kindEntry_def pct_1_3[unfolded One_nat_def] pct_2_3)
qed

lemma sum_list_zeros:
  fixes f :: "'a \<Rightarrow> rat"
  shows "\<forall>x\<in>set xs. f x = 0 \<Longrightarrow> sum_list (map f xs) = 0"
  by (induction xs) simp_all

text \<open>The sum of the percentages and the share of the records that reference content.\<close>

lemma kind_pct_sum_error:
  assumes "0 < sum_list (map amount zaps)"
  shows "\<bar>sum_list (map (\<lambda>e. dval (ek_percentage e)) (groupZapsByKind zaps))
          - 100 * (rat_of_nat (sum_list (map ek_totalSats (groupZapsByKind zaps)))
                   / rat_of_nat (sum_list (map amount zaps)))\<bar>
         \<le> 100 * (rat_of_nat (sum_list (map ek_totalSats (groupZapsByKind zaps)))
                   / rat_of_nat (sum_list (map amount zaps))) / 2 ^ 51"
proof -
  define t where "t = sum_list (map amount zaps)"
  define out where "out = groupZapsByKind zaps"
  have tpos: "0 < t" using assms unfolding t_def .
  have each: "\<forall>e\<in>set out.
      \<bar>dval (ek_percentage e) - 100 * (rat_of_nat (ek_totalSats e) / rat_of_nat t)\<bar>
        \<le> 100 * (rat_of_nat (ek_totalSats e) / rat_of_nat t) / 2 ^ 51"
  proof
    fix e assume "e \<in> set out"
    then have "ek_percentage e = double_times (double_div (ek_totalSats e) t) 100"
      unfolding out_def t_def using kind_entry_pct[of e zaps] assms by simp
    then show "\<bar>dval (ek_percentage e) - 100 * (rat_of_nat (ek_totalSats e) / rat_of_nat t)\<bar>
        \<le> 100 * (rat_of_nat (ek_totalSats e) / rat_of_nat t) / 2 ^ 51"
      using percentage_error[OF tpos, of "ek_totalSats e"] by simp
  qed
  have "\<bar>sum_list (map (\<lambda>e. dval (ek_percentage e)) out)
          - sum_list (map (\<lambda>e. 100 * (rat_of_nat (ek_totalSats e) / rat_of_nat t)) out)\<bar>
        \<le> sum_list (map (\<lambda>e. 100 * (rat_of_nat (ek_totalSats e) / rat_of_nat t) / 2 ^ 51) out)"
    using each by (rule sum_list_abs_diff)
  then show ?thesis
    unfolding sum_list_share sum_list_share_div out_def t_def .
qed

text \<open>
  Claim C9, as the code has it. With \<open>T\<close> the grand total over all records, those that
  reference no content too: the percentage of each kind is the double
  \<open>(total of the kind / T) * 100\<close> when \<open>T\<close> is positive and 0 otherwise; the totals of
  the kinds add up to the sum of the amounts of the records that reference content; this
  sum is at most \<open>T\<close>, and it is \<open>T\<close> exactly when every record with a positive amount
  references content; and every percentage is 0 when \<open>T\<close> is 0. The percentages are
  rounded doubles. When \<open>T\<close> is positive their sum differs from 100 times the share of
  the records that reference content by at most that number divided by \<open>2 ^ 51\<close>; so
  the sum is at most \<open>100 + 100 / 2 ^ 51\<close>, and it is within \<open>100 / 2 ^ 51\<close> of 100
  when \<open>T\<close> is positive and every record with a positive amount references content.
\<close>

theorem kind_percentages:
  fixes zaps :: "ParsedZap list"
  defines "T \<equiv> sum_list (map amount zaps)"
    and "out \<equiv> groupZapsByKind zaps"
  defines "S \<equiv> sum_list (map (\<lambda>e. dval (ek_percentage e)) out)"
  shows "(\<forall>e\<in>set out. ek_percentage e =
            (if 0 < T then double_times (double_div (ek_totalSats e) T) 100 else (0, 0))) \<and>
         sum_list (map ek_totalSats out)
           = sum_list (map amount (filter (\<lambda>z. zappedEvent z \<noteq> None) zaps)) \<and>
         sum_list (map ek_totalSats out) \<le> T \<and>
         (sum_list (map ek_totalSats out) = T \<longleftrightarrow>
            (\<forall>z\<in>set zaps. 0 < amount z \<longrightarrow> zappedEvent z \<noteq> None)) \<and>
         (T = 0 \<longrightarrow> (\<forall>e\<in>set out. dval (ek_percentage e) = 0)) \<and>
         (0 < T \<longrightarrow>
            \<bar>S - 100 * (rat_of_nat (sum_list (map ek_totalSats out)) / rat_of_nat T)\<bar>
              \<le> 100 * (rat_of_nat (sum_list (map ek_totalSats out)) / rat_of_nat T) / 2 ^ 51) \<and>
         S \<le> 100 + 100 / 2 ^ 51 \<and>
         (0 < T \<and> (\<forall>z\<in>set zaps. 0 < amount z \<longrightarrow> zappedEvent z \<noteq> None) \<longrightarrow>
            \<bar>S - 100\<bar> \<le> 100 / 2 ^ 51)"
proof -
  define C where "C = sum_list (map amount (filter (\<lambda>z. zappedEvent z \<noteq> None) zaps))"
  define x where "x = rat_of_nat C / rat_of_nat T"
  have le: "C \<le> T" unfolding T_def C_def by (rule sum_list_filter_le_nat)
  have "C = T \<longleftrightarrow> (\<forall>z\<in>set zaps. \<not> zappedEvent z \<noteq> None \<longrightarrow> amount z = 0)"
    unfolding T_def C_def by (rule sum_filter_eq_iff)
  also have "\<dots> \<longleftrightarrow> (\<forall>z\<in>set zaps. 0 < amount z \<longrightarrow> zappedEvent z \<noteq> None)"
    by (metis gr0I less_numeral_extra(3))
  finally have eq: "C = T \<longleftrightarrow> (\<forall>z\<in>set zaps. 0 < amount z \<longrightarrow> zappedEvent z \<noteq> None)" .
  have a: "\<forall>e\<in>set out. ek_percentage e =
            (if 0 < T then double_times (double_div (ek_totalSats e) T) 100 else (0, 0))"
    unfolding out_def T_def using kind_entry_pct by blast
  have b: "sum_list (map ek_totalSats out) = C"
    unfolding out_def C_def by (rule kind_totals)
  have e: "T = 0 \<longrightarrow> (\<forall>e\<in>set out. dval (ek_percentage e) = 0)"
    using a by (simp add: dval_def)
  have err: "\<bar>S - 100 * x\<bar> \<le> 100 * x / 2 ^ 51" if "0 < T"
    using kind_pct_sum_error[of zaps] that
    unfolding S_def x_def b[symmetric] out_def T_def by simp
  have x1: "x \<le> 1" if "0 < T"
  proof -
    have "rat_of_nat C \<le> rat_of_nat T" using le by (simp only: of_nat_le_iff)
    then show ?thesis unfolding x_def using that by (simp add: divide_le_eq)
  qed
  have x0: "0 \<le> x" unfolding x_def by simp
  have f: "0 < T \<longrightarrow> \<bar>S - 100 * x\<bar> \<le> 100 * x / 2 ^ 51" using err by blast
  have g: "S \<le> 100 + 100 / 2 ^ 51"
  proof (cases "0 < T")
    case True
    from err[OF True] have "S \<le> 100 * x + 100 * x / 2 ^ 51" by linarith
    moreover have "100 * x \<le> 100" using x1[OF True] by simp
    moreover from this have "100 * x / 2 ^ 51 \<le> 100 / 2 ^ 51" by (simp add: divide_right_mono)
    ultimately show ?thesis by linarith
  next
    case False
    then have "\<forall>e\<in>set out. dval (ek_percentage e) = 0" using e by simp
    then have "S = 0" unfolding S_def by (rule sum_list_zeros)
    then show ?thesis by simp
  qed
  have h: "0 < T \<and> (\<forall>z\<in>set zaps. 0 < amount z \<longrightarrow> zappedEvent z \<noteq> None) \<longrightarrow>
      \<bar>S - 100\<bar> \<le> 100 / 2 ^ 51"
  proof
    assume p: "0 < T \<and> (\<forall>z\<in>set zaps. 0 < amount z \<longrightarrow> zappedEvent z \<noteq> None)"
    then have "C = T" using eq by blast
    then have "x = 1" unfolding x_def using p by simp
    then show "\<bar>S - 100\<bar> \<le> 100 / 2 ^ 51" using err p by simp
  qed
  show ?thesis
    by (rule conjI[OF a conjI[OF b[unfolded C_def] conjI[OF le[folded b]
          conjI[OF eq[folded b] conjI[OF e conjI[OF f[unfolded x_def, folded b]
          conjI[OF g h]]]]]]])
qed

text \<open>
  Zaps of 1 and 2 sats, both on content: the totals of the two kinds add up to 3, and the
  percentages add up to 100 within the rounding.
\<close>

theorem kind_percentages_witness:
  "list_all (\<lambda>z. 0 < amount z \<longrightarrow> zappedEvent z \<noteq> None) ex_zaps_1_2 \<and>
   0 < sum_list (map amount ex_zaps_1_2) \<and>
   sum_list (map ek_totalSats (groupZapsByKind ex_zaps_1_2)) = 3 \<and>
   \<bar>sum_list (map (\<lambda>e. dval (ek_percentage e)) (groupZapsByKind ex_zaps_1_2)) - 100\<bar>
     \<le> 100 / 2 ^ 51"
proof -
  have c: "\<forall>z\<in>set ex_zaps_1_2. 0 < amount z \<longrightarrow> zappedEvent z \<noteq> None"
    by (simp add: ex_zaps_1_2_def ex_zap_def)
  have t: "sum_list (map amount ex_zaps_1_2) = 3"
    by (simp add: ex_zaps_1_2_def ex_zap_def)
  then have p: "0 < sum_list (map amount ex_zaps_1_2)" by simp
  note k = kind_percentages[of ex_zaps_1_2]
  have "sum_list (map ek_totalSats (groupZapsByKind ex_zaps_1_2))
      = sum_list (map amount ex_zaps_1_2)"
    using k[THEN conjunct2, THEN conjunct2, THEN conjunct2, THEN conjunct1] c
    by (rule iffD2)
  then have s: "sum_list (map ek_totalSats (groupZapsByKind ex_zaps_1_2)) = 3"
    using t by simp
  have b: "\<bar>sum_list (map (\<lambda>e. dval (ek_percentage e)) (groupZapsByKind ex_zaps_1_2)) - 100\<bar>
      \<le> 100 / 2 ^ 51"
    by (rule k[THEN conjunct2, THEN conjunct2, THEN conjunct2, THEN conjunct2, THEN conjunct2,
          THEN conjunct2, THEN conjunct2, THEN mp, OF conjI[OF p c]])
  have l: "list_all (\<lambda>z. 0 < amount z \<longrightarrow> zappedEvent z \<noteq> None) ex_zaps_1_2"
    using c by (simp only: list_all_iff)
  show ?thesis by (rule conjI[OF l conjI[OF p conjI[OF s b]]])
qed

text \<open>
  The claim as stated fails in three ways. When the grand total is 0, for instance on the
  empty list, every record with a positive amount references content, and the percentages
  add up to 0, not to 100. For zaps of 2 and 9 sats on two kinds the percentages are the
  doubles 18.181818181818183 and 81.81818181818183, whose sum is more than 100. For zaps
  of 1 and 2 sats on two kinds, where every record references content, the percentages
  are the doubles 33.33333333333333 and 66.66666666666666, whose sum is less than 100.
\<close>

theorem kind_percentages_do_not_add_up:
  "sum_list (map (\<lambda>e. dval (ek_percentage e)) (groupZapsByKind [])) = 0 \<and>
   list_all (\<lambda>z. 0 < amount z \<longrightarrow> zappedEvent z \<noteq> None) ([] :: ParsedZap list) \<and>
   100 < sum_list (map (\<lambda>e. dval (ek_percentage e)) (groupZapsByKind ex_zaps_2_9)) \<and>
   list_all (\<lambda>z. 0 < amount z \<longrightarrow> zappedEvent z \<noteq> None) ex_zaps_1_2 \<and>
   sum_list (map (\<lambda>e. dval (ek_percentage e)) (groupZapsByKind ex_zaps_1_2)) < 100"
proof -
  have p: "map (\<lambda>e. dval (ek_percentage e)) zs
      = map (\<lambda>t. dval (snd (snd t))) (map (\<lambda>e. (ek_kind e, ek_totalSats e, ek_percentage e)) zs)"
    for zs
    by simp
  have a: "sum_list (map (\<lambda>e. dval (ek_percentage e)) (groupZapsByKind [])) = 0"
    by (simp add: groupZapsByKind_def)
  have b: "100 < sum_list (map (\<lambda>e. dval (ek_percentage e)) (groupZapsByKind ex_zaps_2_9))"
    by (simp only: p ex_pct_2_9) (simp add: dval_def)
  have c: "sum_list (map (\<lambda>e. dval (ek_percentage e)) (groupZapsByKind ex_zaps_1_2)) < 100"
    by (simp only: p ex_pct_1_2) (simp add: dval_def)
  have d: "list_all (\<lambda>z. 0 < amount z \<longrightarrow> zappedEvent z \<noteq> None) ex_zaps_1_2"
    by (simp add: ex_zaps_1_2_def ex_zap_def)
  show ?thesis using a b c d by simp
qed

section \<open>Loyalty analysis\<close>

lemma map_of_zapperStep:
  "map_of (zapperStep m z) =
     (map_of m)(zp_pubkey (zapper z) \<mapsto>
        (case map_of m (zp_pubkey (zapper z)) of
           Some existing \<Rightarrow>
             existing\<lparr>zi_zaps := zi_zaps existing @ [z],
                      zi_totalSats := zi_totalSats existing + amount z,
                      zi_zapCount := zi_zapCount existing + 1\<rparr>
         | None \<Rightarrow>
             \<lparr>zi_pubkey = zp_pubkey (zapper z), zi_name = zp_name (zapper z),
              zi_picture = zp_picture (zapper z), zi_zaps = [z],
              zi_totalSats = amount z, zi_zapCount = 1\<rparr>))"
  by (cases "map_of m (zp_pubkey (zapper z))") (simp_all add: zapperStep_def update_conv')

lemma zapperData_snoc: "zapperData (zs @ [z]) = zapperStep (zapperData zs) z"
  by (simp add: zapperData_def)

lemma zapsOf_snoc:
  "zapsOf p (zs @ [z]) = (if zp_pubkey (zapper z) = p then zapsOf p zs @ [z] else zapsOf p zs)"
  by (simp add: zapsOf_def)

lemma map_of_zapperData:
  "map_of (zapperData zaps) p = (if zapsOf p zaps = [] then None else Some (infoOf p zaps))"
proof (induction zaps rule: rev_induct)
  case Nil
  then show ?case by (simp add: zapperData_def zapsOf_def)
next
  case (snoc z zs)
  show ?case
  proof (cases "zp_pubkey (zapper z) = p")
    case False
    then show ?thesis
      using snoc by (simp add: zapperData_snoc map_of_zapperStep zapsOf_snoc infoOf_def)
  next
    case True
    show ?thesis
    proof (cases "zapsOf p zs = []")
      case e: True
      then have "map_of (zapperData zs) p = None" using snoc by simp
      then show ?thesis
        using True e by (simp add: zapperData_snoc map_of_zapperStep zapsOf_snoc infoOf_def)
    next
      case ne: False
      then have "map_of (zapperData zs) p = Some (infoOf p zs)" using snoc by simp
      then show ?thesis
        using True ne by (simp add: zapperData_snoc map_of_zapperStep zapsOf_snoc infoOf_def)
    qed
  qed
qed

lemma distinct_zapperStep:
  "distinct (map fst m) \<Longrightarrow> distinct (map fst (zapperStep m z))"
  by (cases "map_of m (zp_pubkey (zapper z))") (simp_all add: zapperStep_def distinct_update)

lemma distinct_zapperData: "distinct (map fst (zapperData zaps))"
  by (induction zaps rule: rev_induct) (simp_all add: zapperData_def distinct_zapperStep)

lemma zapperData_entry:
  assumes "(p, zi) \<in> set (zapperData zaps)"
  shows "zapsOf p zaps \<noteq> [] \<and> zi = infoOf p zaps"
proof -
  have "map_of (zapperData zaps) p = Some zi"
    using assms distinct_zapperData by simp
  then show ?thesis
    unfolding map_of_zapperData by (simp split: if_splits)
qed

lemma keys_zapperData:
  "set (map fst (zapperData zaps)) = set (map (\<lambda>z. zp_pubkey (zapper z)) zaps)"
proof -
  have "p \<in> set (map fst (zapperData zaps)) \<longleftrightarrow> p \<in> set (map (\<lambda>z. zp_pubkey (zapper z)) zaps)" for p
  proof -
    have "p \<in> set (map fst (zapperData zaps)) \<longleftrightarrow> map_of (zapperData zaps) p \<noteq> None"
      by (simp add: map_of_eq_None_iff)
    also have "\<dots> \<longleftrightarrow> zapsOf p zaps \<noteq> []" by (simp add: map_of_zapperData)
    also have "\<dots> \<longleftrightarrow> p \<in> set (map (\<lambda>z. zp_pubkey (zapper z)) zaps)"
      by (auto simp: zapsOf_def filter_empty_conv)
    finally show ?thesis .
  qed
  then show ?thesis by blast
qed

lemma pubkey_entry:
  "(p, zi) \<in> set (zapperData zaps) \<Longrightarrow> zi_pubkey zi = p"
  by (drule zapperData_entry) (simp add: infoOf_def)

lemma pubkeys_zapperData: "map zi_pubkey (map snd (zapperData zaps)) = map fst (zapperData zaps)"
  using pubkey_entry[of _ _ zaps] by (induction "zapperData zaps") auto

lemma sorted_le_last:
  fixes zs :: "int list"
  shows "sorted zs \<Longrightarrow> z \<in> set zs \<Longrightarrow> z \<le> last zs"
  by (induction zs) auto

lemma hd_sort_key_Min:
  fixes f :: "'a \<Rightarrow> int"
  assumes "xs \<noteq> []"
  shows "f (hd (sort_key f xs)) = Min (set (map f xs))"
proof -
  define ys where "ys = sort_key f xs"
  have s: "sorted (map f ys)" unfolding ys_def by (rule sorted_sort_key)
  have e: "set ys = set xs" unfolding ys_def by simp
  have "ys \<noteq> []" using assms e by auto
  then obtain y ys' where c: "ys = y # ys'" by (cases ys) auto
  have "Min (set (map f ys)) = f y"
  proof (rule Min_eqI)
    show "finite (set (map f ys))" by simp
    show "f y \<in> set (map f ys)" by (simp add: c)
    fix v assume "v \<in> set (map f ys)"
    then show "f y \<le> v" using s by (auto simp: c)
  qed
  moreover have "set (map f ys) = set (map f xs)" by (simp only: set_map e)
  moreover have "hd ys = y" by (simp add: c)
  ultimately show ?thesis unfolding ys_def[symmetric] by (simp only:)
qed

lemma last_sort_key_Max:
  fixes f :: "'a \<Rightarrow> int"
  assumes "xs \<noteq> []"
  shows "f (last (sort_key f xs)) = Max (set (map f xs))"
proof -
  define ys where "ys = sort_key f xs"
  have s: "sorted (map f ys)" unfolding ys_def by (rule sorted_sort_key)
  have e: "set ys = set xs" unfolding ys_def by simp
  have ne: "ys \<noteq> []" using assms e by auto
  have l: "last (map f ys) = f (last ys)" using ne by (rule last_map)
  have "Max (set (map f ys)) = f (last ys)"
  proof (rule Max_eqI)
    show "finite (set (map f ys))" by simp
    show "f (last ys) \<in> set (map f ys)" using ne by simp
    fix v assume "v \<in> set (map f ys)"
    then have "v \<le> last (map f ys)" using s by (rule sorted_le_last[rotated])
    then show "v \<le> f (last ys)" by (simp only: l)
  qed
  moreover have "set (map f ys) = set (map f xs)" by (simp only: set_map e)
  ultimately show ?thesis unfolding ys_def[symmetric] by (simp only:)
qed

lemma loyalty_fold:
  "foldl loyaltyStep acc xs =
     \<lparr>loyaltyAnalysis = loyaltyAnalysis acc @ map analyzeZapper xs,
      ll_newZappers = ll_newZappers acc + length (filter (\<lambda>zi. zi_zapCount zi = 1) xs),
      ll_returningZappers =
        ll_returningZappers acc + length (filter (\<lambda>zi. zi_zapCount zi \<noteq> 1) xs),
      ll_regularSupporters =
        ll_regularSupporters acc +
        length (filter (\<lambda>zi. zi_zapCount zi \<noteq> 1 \<and> zl_category (analyzeZapper zi) = Regular) xs)\<rparr>"
  by (induction xs arbitrary: acc) (simp_all add: loyaltyStep_def Let_def)

lemma loyaltyLoop_eq:
  "loyaltyLoop zaps =
     \<lparr>loyaltyAnalysis = map analyzeZapper (map snd (zapperData zaps)),
      ll_newZappers = length (filter (\<lambda>zi. zi_zapCount zi = 1) (map snd (zapperData zaps))),
      ll_returningZappers =
        length (filter (\<lambda>zi. zi_zapCount zi \<noteq> 1) (map snd (zapperData zaps))),
      ll_regularSupporters =
        length (filter (\<lambda>zi. zi_zapCount zi \<noteq> 1 \<and> zl_category (analyzeZapper zi) = Regular)
          (map snd (zapperData zaps)))\<rparr>"
  unfolding loyaltyLoop_def loyalty_fold by simp

lemma analyzeZapper_sel:
  "zl_pubkey (analyzeZapper zi) = zi_pubkey zi"
  "zl_zapCount (analyzeZapper zi) = zi_zapCount zi"
  "zl_totalSats (analyzeZapper zi) = zi_totalSats zi"
  "zl_firstZapDate (analyzeZapper zi)
     = ev_created_at (receipt (hd (sort_key (\<lambda>z. ev_created_at (receipt z)) (zi_zaps zi)))) * 1000"
  "zl_lastZapDate (analyzeZapper zi)
     = ev_created_at (receipt (last (sort_key (\<lambda>z. ev_created_at (receipt z)) (zi_zaps zi)))) * 1000"
  "zl_daysBetweenFirstAndLast (analyzeZapper zi)
     = (if 1 < zi_zapCount zi
        then ceil_div (zl_lastZapDate (analyzeZapper zi) - zl_firstZapDate (analyzeZapper zi))
               86400000
        else 0)"
  "zl_averageDaysBetweenZaps (analyzeZapper zi)
     = (if 1 < zi_zapCount zi
        then rat_of_int (zl_daysBetweenFirstAndLast (analyzeZapper zi))
               / rat_of_nat (zi_zapCount zi - 1)
        else 0)"
  "zl_category (analyzeZapper zi)
     = spec_category (zi_zapCount zi) (zi_totalSats zi)
         (zl_averageDaysBetweenZaps (analyzeZapper zi))"
  "zl_isRegular (analyzeZapper zi) \<longleftrightarrow> zl_category (analyzeZapper zi) = Regular"
  by (simp_all add: analyzeZapper_def Let_def spec_category_def)

lemma zapper_total_step:
  "sum_list (map (\<lambda>p. zi_totalSats (snd p)) (zapperStep m z))
     = sum_list (map (\<lambda>p. zi_totalSats (snd p)) m) + amount z"
  unfolding zapperStep_def
  by (cases "map_of m (zp_pubkey (zapper z))")
     (simp_all, (rule sum_update_bump, simp)+)

lemma zapper_total:
  "sum_list (map (\<lambda>p. zi_totalSats (snd p)) (zapperData zaps)) = sum_list (map amount zaps)"
  by (induction zaps rule: rev_induct) (simp_all add: zapperData_def zapper_total_step)

lemma foldl_add_total:
  "foldl (\<lambda>sum zapper'. sum + zi_totalSats zapper') a xs = a + sum_list (map zi_totalSats xs)"
  by (induction xs arbitrary: a) simp_all

lemma analysis_entry:
  assumes "a \<in> set (loyaltyAnalysis (loyaltyLoop zaps))"
  shows "\<exists>p. zapsOf p zaps \<noteq> [] \<and> a = analyzeZapper (infoOf p zaps)"
proof -
  from assms obtain p zi where "(p, zi) \<in> set (zapperData zaps)" "a = analyzeZapper zi"
    unfolding loyaltyLoop_eq by auto
  then show ?thesis using zapperData_entry by blast
qed

lemma analysis_facts:
  assumes "a \<in> set (loyaltyAnalysis (loyaltyLoop zaps))"
  shows "zl_zapCount a = length (zapsOf (zl_pubkey a) zaps) \<and> 0 < zl_zapCount a \<and>
     zl_totalSats a = sum_list (map amount (zapsOf (zl_pubkey a) zaps)) \<and>
     zl_firstZapDate a
       = Min (set (map (\<lambda>z. ev_created_at (receipt z)) (zapsOf (zl_pubkey a) zaps))) * 1000 \<and>
     zl_lastZapDate a
       = Max (set (map (\<lambda>z. ev_created_at (receipt z)) (zapsOf (zl_pubkey a) zaps))) * 1000 \<and>
     zl_daysBetweenFirstAndLast a
       = (if 1 < zl_zapCount a
          then ceil_div (zl_lastZapDate a - zl_firstZapDate a) 86400000 else 0) \<and>
     zl_averageDaysBetweenZaps a
       = (if 1 < zl_zapCount a
          then rat_of_int (zl_daysBetweenFirstAndLast a) / rat_of_nat (zl_zapCount a - 1)
          else 0) \<and>
     zl_category a
       = spec_category (zl_zapCount a) (zl_totalSats a) (zl_averageDaysBetweenZaps a) \<and>
     (zl_isRegular a \<longleftrightarrow> zl_category a = Regular)"
proof -
  from analysis_entry[OF assms] obtain p where
    p: "zapsOf p zaps \<noteq> []" "a = analyzeZapper (infoOf p zaps)" by blast
  have k: "zl_pubkey a = p" by (simp add: p(2) analyzeZapper_sel infoOf_def)
  have c: "zl_zapCount a = length (zapsOf p zaps)"
    by (simp add: p(2) analyzeZapper_sel infoOf_def)
  have c0: "0 < zl_zapCount a" using p(1) c by simp
  have t: "zl_totalSats a = sum_list (map amount (zapsOf p zaps))"
    by (simp add: p(2) analyzeZapper_sel infoOf_def)
  have z: "zi_zaps (infoOf p zaps) = zapsOf p zaps" "zi_zapCount (infoOf p zaps) = zl_zapCount a"
    "zi_totalSats (infoOf p zaps) = zl_totalSats a"
    by (simp_all add: c t infoOf_def)
  have f: "zl_firstZapDate a
       = Min (set (map (\<lambda>z. ev_created_at (receipt z)) (zapsOf p zaps))) * 1000"
    unfolding p(2) analyzeZapper_sel z
    by (simp only: hd_sort_key_Min[OF p(1), of "\<lambda>z. ev_created_at (receipt z)"])
  have l: "zl_lastZapDate a
       = Max (set (map (\<lambda>z. ev_created_at (receipt z)) (zapsOf p zaps))) * 1000"
    unfolding p(2) analyzeZapper_sel z
    by (simp only: last_sort_key_Max[OF p(1), of "\<lambda>z. ev_created_at (receipt z)"])
  have d: "zl_daysBetweenFirstAndLast a
       = (if 1 < zl_zapCount a
          then ceil_div (zl_lastZapDate a - zl_firstZapDate a) 86400000 else 0)"
    using analyzeZapper_sel(6)[of "infoOf p zaps"] unfolding z p(2)[symmetric] .
  have v: "zl_averageDaysBetweenZaps a
       = (if 1 < zl_zapCount a
          then rat_of_int (zl_daysBetweenFirstAndLast a) / rat_of_nat (zl_zapCount a - 1)
          else 0)"
    using analyzeZapper_sel(7)[of "infoOf p zaps"] unfolding z p(2)[symmetric] .
  have g: "zl_category a
       = spec_category (zl_zapCount a) (zl_totalSats a) (zl_averageDaysBetweenZaps a)"
    using analyzeZapper_sel(8)[of "infoOf p zaps"] unfolding z p(2)[symmetric] .
  have r: "zl_isRegular a \<longleftrightarrow> zl_category a = Regular"
    using analyzeZapper_sel(9)[of "infoOf p zaps"] unfolding p(2)[symmetric] .
  show ?thesis
    unfolding k using c c0 t f l d v g r by (intro conjI)
qed

lemma analysis_pubkeys:
  "map zl_pubkey (loyaltyAnalysis (loyaltyLoop zaps)) = map fst (zapperData zaps)"
proof -
  have "map zl_pubkey (map analyzeZapper xs) = map zi_pubkey xs" for xs
    by (induction xs) (simp_all add: analyzeZapper_sel)
  then have "map zl_pubkey (map analyzeZapper (map snd (zapperData zaps)))
      = map fst (zapperData zaps)"
    by (simp only: pubkeys_zapperData)
  then show ?thesis unfolding loyaltyLoop_eq by simp
qed

lemma counts_via_analysis:
  "length (filter (\<lambda>zi. zi_zapCount zi = 1) xs)
     = length (filter (\<lambda>a. zl_zapCount a = 1) (map analyzeZapper xs))"
  "length (filter (\<lambda>zi. zi_zapCount zi \<noteq> 1) xs)
     = length (filter (\<lambda>a. zl_zapCount a \<noteq> 1) (map analyzeZapper xs))"
  "length (filter (\<lambda>zi. zi_zapCount zi \<noteq> 1 \<and> zl_category (analyzeZapper zi) = Regular) xs)
     = length (filter (\<lambda>a. zl_zapCount a \<noteq> 1 \<and> zl_category a = Regular)
         (map analyzeZapper xs))"
  by (induction xs) (simp_all add: analyzeZapper_sel(2))

lemma stats_counters:
  "newZappers (analyzeZapperLoyalty zaps) = ll_newZappers (loyaltyLoop zaps)"
  "returningZappers (analyzeZapperLoyalty zaps) = ll_returningZappers (loyaltyLoop zaps)"
  "regularSupporters (analyzeZapperLoyalty zaps) = ll_regularSupporters (loyaltyLoop zaps)"
  by (simp_all add: analyzeZapperLoyalty_def Let_def)

lemma loop_counters:
  "ll_newZappers (loyaltyLoop zaps)
     = length (filter (\<lambda>zi. zi_zapCount zi = 1) (map snd (zapperData zaps)))"
  "ll_returningZappers (loyaltyLoop zaps)
     = length (filter (\<lambda>zi. zi_zapCount zi \<noteq> 1) (map snd (zapperData zaps)))"
  "ll_regularSupporters (loyaltyLoop zaps)
     = length (filter (\<lambda>zi. zi_zapCount zi \<noteq> 1 \<and> zl_category (analyzeZapper zi) = Regular)
         (map snd (zapperData zaps)))"
  unfolding loyaltyLoop_eq by simp_all

lemma length_filter_map: "length (filter P (map f xs)) = length (filter (\<lambda>x. P (f x)) xs)"
  by (induction xs) simp_all

lemma length_filter_cong:
  "(\<And>x. x \<in> set xs \<Longrightarrow> P x = Q x) \<Longrightarrow> length (filter P xs) = length (filter Q xs)"
  by (induction xs) simp_all


text \<open>The boundaries of the classification, for any gaps between the records.\<close>

lemma loyalty_boundaries:
  "zi_zapCount zi = 1 \<Longrightarrow> zl_category (analyzeZapper zi) = OneTime"
  "zi_zapCount zi \<noteq> 1 \<Longrightarrow> zi_totalSats zi = 10000 \<Longrightarrow> zl_category (analyzeZapper zi) = Whale"
  "zi_zapCount zi = 5 \<Longrightarrow> zi_totalSats zi < 10000 \<Longrightarrow>
     zl_category (analyzeZapper zi) = Regular"
  by (simp_all add: analyzeZapper_sel(8) spec_category_def)

text \<open>
  Claim C4, as the code has it. The analysis holds one entry for each distinct actor of
  the records. The record count and the lifetime total of an entry are the number and the
  sum of the amounts of the actor's records; the first and last dates are the earliest and
  latest of their times; the days between them are the difference in days, rounded up; the
  average days between records are those days over the count less one (0 for one record).
  The entry is classified one-time when the count is 1, otherwise whale when the total is
  at least 10000, otherwise regular when the count is at least 5 or the count is at least
  3 and the average days are at most 7, otherwise occasional. The new supporters are the
  actors with one record, the returning ones those with more than one, the regular
  supporters those classified regular. The average lifetime value is the grand total
  divided by the number of actors, rounded to the nearest integer (a half upwards), and 0
  when there is no actor.
\<close>

theorem loyalty_segmentation:
  fixes zaps :: "ParsedZap list"
  defines "A \<equiv> loyaltyAnalysis (loyaltyLoop zaps)"
    and "S \<equiv> analyzeZapperLoyalty zaps"
  shows "distinct (map zl_pubkey A) \<and>
     set (map zl_pubkey A) = set (map (\<lambda>z. zp_pubkey (zapper z)) zaps) \<and>
     (\<forall>a\<in>set A.
        zl_zapCount a = length (zapsOf (zl_pubkey a) zaps) \<and> 0 < zl_zapCount a \<and>
        zl_totalSats a = sum_list (map amount (zapsOf (zl_pubkey a) zaps)) \<and>
        zl_firstZapDate a
          = Min (set (map (\<lambda>z. ev_created_at (receipt z)) (zapsOf (zl_pubkey a) zaps))) * 1000 \<and>
        zl_lastZapDate a
          = Max (set (map (\<lambda>z. ev_created_at (receipt z)) (zapsOf (zl_pubkey a) zaps))) * 1000 \<and>
        zl_daysBetweenFirstAndLast a
          = (if 1 < zl_zapCount a
             then ceil_div (zl_lastZapDate a - zl_firstZapDate a) 86400000 else 0) \<and>
        zl_averageDaysBetweenZaps a
          = (if 1 < zl_zapCount a
             then rat_of_int (zl_daysBetweenFirstAndLast a) / rat_of_nat (zl_zapCount a - 1)
             else 0) \<and>
        zl_category a
          = spec_category (zl_zapCount a) (zl_totalSats a) (zl_averageDaysBetweenZaps a) \<and>
        (zl_isRegular a \<longleftrightarrow> zl_category a = Regular)) \<and>
     newZappers S = length (filter (\<lambda>a. zl_zapCount a = 1) A) \<and>
     returningZappers S = length (filter (\<lambda>a. 1 < zl_zapCount a) A) \<and>
     regularSupporters S = length (filter (\<lambda>a. zl_category a = Regular) A) \<and>
     averageLifetimeValue S =
       (if A = [] then 0
        else Math_round (rat_of_nat (sum_list (map amount zaps)) / rat_of_nat (length A)))"
proof -
  have A: "A = map analyzeZapper (map snd (zapperData zaps))"
    unfolding A_def loyaltyLoop_eq by simp
  have c1: "distinct (map zl_pubkey A)"
    unfolding A_def analysis_pubkeys by (rule distinct_zapperData)
  have c2: "set (map zl_pubkey A) = set (map (\<lambda>z. zp_pubkey (zapper z)) zaps)"
    unfolding A_def analysis_pubkeys by (rule keys_zapperData)
  have c3: "\<forall>a\<in>set A.
        zl_zapCount a = length (zapsOf (zl_pubkey a) zaps) \<and> 0 < zl_zapCount a \<and>
        zl_totalSats a = sum_list (map amount (zapsOf (zl_pubkey a) zaps)) \<and>
        zl_firstZapDate a
          = Min (set (map (\<lambda>z. ev_created_at (receipt z)) (zapsOf (zl_pubkey a) zaps))) * 1000 \<and>
        zl_lastZapDate a
          = Max (set (map (\<lambda>z. ev_created_at (receipt z)) (zapsOf (zl_pubkey a) zaps))) * 1000 \<and>
        zl_daysBetweenFirstAndLast a
          = (if 1 < zl_zapCount a
             then ceil_div (zl_lastZapDate a - zl_firstZapDate a) 86400000 else 0) \<and>
        zl_averageDaysBetweenZaps a
          = (if 1 < zl_zapCount a
             then rat_of_int (zl_daysBetweenFirstAndLast a) / rat_of_nat (zl_zapCount a - 1)
             else 0) \<and>
        zl_category a
          = spec_category (zl_zapCount a) (zl_totalSats a) (zl_averageDaysBetweenZaps a) \<and>
        (zl_isRegular a \<longleftrightarrow> zl_category a = Regular)"
    unfolding A_def using analysis_facts by blast
  have pos: "0 < zl_zapCount a" if "a \<in> set A" for a using c3 that by blast
  have cat: "zl_category a
          = spec_category (zl_zapCount a) (zl_totalSats a) (zl_averageDaysBetweenZaps a)"
    if "a \<in> set A" for a using c3 that by blast
  have c4: "newZappers S = length (filter (\<lambda>a. zl_zapCount a = 1) A)"
    unfolding S_def A by (simp only: stats_counters loop_counters counts_via_analysis)
  have "returningZappers S = length (filter (\<lambda>a. zl_zapCount a \<noteq> 1) A)"
    unfolding S_def A by (simp only: stats_counters loop_counters counts_via_analysis)
  also have "\<dots> = length (filter (\<lambda>a. 1 < zl_zapCount a) A)"
    by (rule length_filter_cong) (use pos in fastforce)
  finally have c5: "returningZappers S = length (filter (\<lambda>a. 1 < zl_zapCount a) A)" .
  have "regularSupporters S
      = length (filter (\<lambda>a. zl_zapCount a \<noteq> 1 \<and> zl_category a = Regular) A)"
    unfolding S_def A by (simp only: stats_counters loop_counters counts_via_analysis)
  also have "\<dots> = length (filter (\<lambda>a. zl_category a = Regular) A)"
    by (rule length_filter_cong) (use cat in \<open>auto simp: spec_category_def\<close>)
  finally have c6: "regularSupporters S = length (filter (\<lambda>a. zl_category a = Regular) A)" .
  have len: "length A = length (zapperData zaps)" unfolding A by simp
  have tot: "sum_list (map zi_totalSats (map snd (zapperData zaps))) = sum_list (map amount zaps)"
    using zapper_total[of zaps] by (simp add: comp_def)
  have c7: "averageLifetimeValue S =
       (if A = [] then 0
        else Math_round (rat_of_nat (sum_list (map amount zaps)) / rat_of_nat (length A)))"
  proof -
    have "averageLifetimeValue S =
       (if 0 < length (zapperData zaps)
        then Math_round (rat_of_nat (sum_list (map zi_totalSats (map snd (zapperData zaps))))
               / rat_of_nat (length (zapperData zaps)))
        else 0)"
      unfolding S_def analyzeZapperLoyalty_def Let_def by (simp add: foldl_add_total)
    then show ?thesis unfolding tot len[symmetric] by (cases A) simp_all
  qed
  show ?thesis
    by (rule conjI[OF c1 conjI[OF c2 conjI[OF c3 conjI[OF c4 conjI[OF c5 conjI[OF c6 c7]]]]]])
qed

text \<open>Two actors with one record each.\<close>

theorem loyalty_segmentation_witness:
  "set (map zl_pubkey
      (loyaltyAnalysis (loyaltyLoop [ex_zap ''p1'' 1060 1 None, ex_zap ''p2'' 1060 2 None])))
     = {''p1'', ''p2''}"
proof -
  have "set (map (\<lambda>z. zp_pubkey (zapper z))
          [ex_zap ''p1'' 1060 1 None, ex_zap ''p2'' 1060 2 None]) = {''p1'', ''p2''}"
    by (simp add: ex_zap_def)
  with loyalty_segmentation[of "[ex_zap ''p1'' 1060 1 None, ex_zap ''p2'' 1060 2 None]",
      THEN conjunct2, THEN conjunct1]
  show ?thesis by (simp only:)
qed

text \<open>
  The claim as stated fails on the average lifetime value: two actors with 1 and 2 sats
  have a grand total of 3, and the value is 2, not 3 / 2.
\<close>

lemma ex_zapperData:
  "zapperData [ex_zap ''p1'' 1060 1 None, ex_zap ''p2'' 1060 2 None]
     = [(''p1'', \<lparr>zi_pubkey = ''p1'', zi_name = None, zi_picture = None,
                 zi_zaps = [ex_zap ''p1'' 1060 1 None], zi_totalSats = 1, zi_zapCount = 1\<rparr>),
        (''p2'', \<lparr>zi_pubkey = ''p2'', zi_name = None, zi_picture = None,
                 zi_zaps = [ex_zap ''p2'' 1060 2 None], zi_totalSats = 2, zi_zapCount = 1\<rparr>)]"
  by code_simp

theorem lifetime_value_is_rounded:
  "averageLifetimeValue
     (analyzeZapperLoyalty [ex_zap ''p1'' 1060 1 None, ex_zap ''p2'' 1060 2 None]) = 2 \<and>
   rat_of_int 2 \<noteq> rat_of_nat 3 / rat_of_nat 2"
  unfolding analyzeZapperLoyalty_def Let_def ex_zapperData
  by (simp add: Math_round_def)

section \<open>Hashtag analysis\<close>

text \<open>
  The scenario of the specification: two records on one note tagged \<open>#bitcoin\<close> give
  that tag two zaps on one post, and the tag \<open>#nostr\<close>, on one record only, is left out.
\<close>

lemma hashtag_scenario:
  "map (\<lambda>h. (hp_hashtag h, hp_zapCount h, hp_totalSats h, hp_postCount h))
     (analyzeHashtagPerformance
        [ex_zap ''p1'' 1060 100 (Some (ex_post ''n1'' ''gm #bitcoin'' 1000)),
         ex_zap ''p2'' 1100 50 (Some (ex_post ''n1'' ''gm #bitcoin'' 1000)),
         ex_zap ''p2'' 1100 50 (Some (ex_post ''n2'' ''#nostr'' 1000))])
   = [(''#bitcoin'', 2, 150, 1)]"
  by code_simp

text \<open>
  Claim C8 against the code. The inner loop runs once for every match of the pattern in
  the body, so a tag that the body repeats is counted once per repetition: one record of
  100 sats on a note whose body is \<open>#bitcoin #bitcoin\<close> gives the tag a count of 2 zaps
  and a total of 200 sats, and the tag passes the filter of at least 2 zaps with a single
  record.
\<close>

theorem repeated_hashtag_counts_one_zap_twice:
  "map (\<lambda>h. (hp_hashtag h, hp_zapCount h, hp_totalSats h, hp_postCount h))
     (analyzeHashtagPerformance
        [ex_zap ''p1'' 1060 100 (Some (ex_post ''n1'' ''#bitcoin #bitcoin'' 1000))])
   = [(''#bitcoin'', 2, 200, 1)]"
  by code_simp

end
